theory Spec2Isabelle
  imports Complex_Main "HOL-Library.AList" "HOL-Library.Char_ord" "HOL-Library.List_Lexorder"
begin

section \<open>Python values\<close>

text \<open>
  The values a YAML configuration or a JSON response holds. A Python \<open>dict\<close> keeps its
  keys in insertion order, so it is an association list (keys distinct); \<open>map_of\<close> is
  the lookup. Strings are lists of characters, read as code units (ASCII in the examples).
  A float is the real number it stands for (\<open>inf\<close> and \<open>nan\<close> are left out); the only
  computation on one is \<open>int(interval)\<close> in \<open>should_run\<close>, which is exact.
\<close>

datatype pyval =
    VNone
  | VBool bool
  | VInt int
  | VFloat real
  | VStr string
  | VList "pyval list"
  | VDict "(string \<times> pyval) list"

type_synonym pydict = "(string \<times> pyval) list"

text \<open>
  The exceptions the modelled code raises or lets through. \<open>OutsideFragment\<close> is not
  one of Python's: it marks a format string that uses a feature the model of \<open>str.format\<close>
  leaves out, where the model does not say what the call does.
\<close>

datatype exn =
    ValueError
  | IndexError
  | KeyError string
  | TypeError
  | AttributeError
  | CollectorError string string
  | HttpError string
  | AzureError
  | OSError
  | SystemExit string
  | OutsideFragment

text \<open>Python's truth value of an object, as \<open>if not x\<close> tests it.\<close>

fun truthy :: "pyval \<Rightarrow> bool" where
  "truthy VNone = False"
| "truthy (VBool b) = b"
| "truthy (VInt i) = (i \<noteq> 0)"
| "truthy (VFloat x) = (x \<noteq> 0)"
| "truthy (VStr s) = (s \<noteq> [])"
| "truthy (VList xs) = (xs \<noteq> [])"
| "truthy (VDict d) = (d \<noteq> [])"

text \<open>
  The built-ins \<open>str(v)\<close>, \<open>s.upper()\<close> and \<open>int(s)\<close> on a string belong to Python, not
  to the repository: they are parameters of the model, and every theorem holds for all of them.
\<close>

record pylib =
  py_str :: "pyval \<Rightarrow> string"
  py_upper :: "string \<Rightarrow> string"
  py_int_of_str :: "string \<Rightarrow> int option"

text \<open>
  An instance for the examples, exact on what they use: ASCII strings, \<open>None\<close>, booleans,
  integers, and strings of plain digits. (Python's \<open>str\<close> of a float, list or dict and
  its wider \<open>int\<close> syntax are not reproduced; no example depends on them.)
\<close>

fun dec_nat :: "nat \<Rightarrow> string" where
  "dec_nat n =
     (if n < 10 then [char_of (48 + n)] else dec_nat (n div 10) @ [char_of (48 + n mod 10)])"

declare dec_nat.simps [simp del]

fun scalar_str :: "pyval \<Rightarrow> string" where
  "scalar_str VNone = ''None''"
| "scalar_str (VBool b) = (if b then ''True'' else ''False'')"
| "scalar_str (VInt i) = (if i < 0 then CHR ''-'' # dec_nat (nat (- i)) else dec_nat (nat i))"
| "scalar_str (VFloat x) = ''<float>''"
| "scalar_str (VStr s) = s"
| "scalar_str (VList xs) = ''[...]''"
| "scalar_str (VDict d) = ''{...}''"

definition ascii_upper :: "string \<Rightarrow> string" where
  "ascii_upper s =
     map (\<lambda>c. if 97 \<le> (of_char c :: nat) \<and> (of_char c :: nat) \<le> 122
              then char_of ((of_char c :: nat) - 32) else c) s"

definition digits_int :: "string \<Rightarrow> int option" where
  "digits_int s =
     (if s \<noteq> [] \<and> list_all (\<lambda>c. 48 \<le> (of_char c :: nat) \<and> (of_char c :: nat) \<le> 57) s
      then Some (foldl (\<lambda>a c. 10 * a + int ((of_char c :: nat) - 48)) 0 s)
      else None)"

definition example_lib :: pylib where
  "example_lib = \<lparr>py_str = scalar_str, py_upper = ascii_upper, py_int_of_str = digits_int\<rparr>"

text \<open>\<open>d.get(k, default)\<close> on a dict, and on any object (only a dict has \<open>get\<close>).\<close>

definition dict_get :: "pydict \<Rightarrow> string \<Rightarrow> pyval \<Rightarrow> pyval" where
  "dict_get d k dflt = (case map_of d k of None \<Rightarrow> dflt | Some v \<Rightarrow> v)"

definition py_get :: "pyval \<Rightarrow> string \<Rightarrow> pyval \<Rightarrow> exn + pyval" where
  "py_get v k dflt = (case v of VDict d \<Rightarrow> Inr (dict_get d k dflt) | _ \<Rightarrow> Inl AttributeError)"



section \<open>scheduler.py\<close>



section \<open>collector.py: the interpolation engine\<close>

subsection \<open>Format strings\<close>

text \<open>
  \<open>str.format\<close> and \<open>string.Formatter\<close> read a template from left to right as literal
  text, the escapes \<open>{{\<close> and \<open>}}\<close>, and replacement fields \<open>{name}\<close>. The model covers
  fields that are a bare name. A field with a conversion (\<open>!r\<close>), a format spec (\<open>:>8\<close>),
  an attribute or index lookup (\<open>.a\<close>, \<open>[0]\<close>) or a nested brace is handed to Python's object
  protocol, which is not modelled: the parse ends there with \<open>Bad OutsideFragment\<close>, and
  no theorem below speaks about such a template. A piece \<open>Bad e\<close> is always the last one:
  the iterator raises there.
\<close>

datatype piece = Lit char | Repl string | Bad exn

definition field_special :: "char \<Rightarrow> bool" where
  "field_special c \<longleftrightarrow> c \<in> set ''{}[.:!''"

function markup :: "string \<Rightarrow> piece list" where
  "markup [] = []"
| "markup (c # cs) =
     (if c = CHR ''{'' then
        (case cs of
           [] \<Rightarrow> [Bad ValueError]
         | d # ds \<Rightarrow>
             if d = CHR ''{'' then Lit c # markup ds
             else (case dropWhile (\<lambda>x. \<not> field_special x) cs of
                     [] \<Rightarrow> [Bad ValueError]
                   | r # rs \<Rightarrow>
                       if r = CHR ''}''
                       then Repl (takeWhile (\<lambda>x. \<not> field_special x) cs) # markup rs
                       else [Bad OutsideFragment]))
      else if c = CHR ''}'' then
        (case cs of
           [] \<Rightarrow> [Bad ValueError]
         | d # ds \<Rightarrow> if d = CHR ''}'' then Lit c # markup ds else [Bad ValueError])
      else Lit c # markup cs)"
  by pat_completeness auto
termination
proof (relation "measure length", goal_cases)
  case 1
  show ?case by simp
next
  case (2 c cs d ds)
  then show ?case by simp
next
  case (3 c cs d ds r rs)
  have "length (dropWhile (\<lambda>x. \<not> field_special x) cs) \<le> length cs"
    by (rule length_dropWhile_le)
  with 3 show ?case by simp
next
  case (4 c cs d ds)
  then show ?case by simp
next
  case (5 c cs)
  then show ?case by simp
qed

declare markup.simps [simp del]

text \<open>
  A field whose name is empty or all digits is positional: \<open>{}\<close>, \<open>{0}\<close>. Both callers
  pass keyword arguments only, so the positional lookup raises \<open>IndexError\<close> (beyond 18
  digits the index parser itself gives up, which is left outside the fragment).
\<close>

definition is_digit :: "char \<Rightarrow> bool" where
  "is_digit c \<longleftrightarrow> c \<in> set ''0123456789''"

definition positional :: "string \<Rightarrow> bool" where
  "positional n \<longleftrightarrow> list_all is_digit n"

definition positional_lookup :: "string \<Rightarrow> exn" where
  "positional_lookup n = (if length n \<le> 18 then IndexError else OutsideFragment)"

text \<open>\<open>str(v)\<close> and \<open>format(v, '')\<close>: a string is itself, anything else is Python's \<open>str\<close>.\<close>

definition str_of :: "pylib \<Rightarrow> pyval \<Rightarrow> string" where
  "str_of L v = (case v of VStr s \<Rightarrow> s | _ \<Rightarrow> py_str L v)"

text \<open>
  The two lookups. \<open>str.format(**kwargs)\<close> raises \<open>KeyError\<close> on a missing name;
  \<open>SafeFormatter.get_value\<close> returns the placeholder text instead.
\<close>

definition strict_value :: "pylib \<Rightarrow> pydict \<Rightarrow> string \<Rightarrow> exn + string" where
  "strict_value L kwargs n =
     (if positional n then Inl (positional_lookup n)
      else (case map_of kwargs n of
              None \<Rightarrow> Inl (KeyError n)
            | Some v \<Rightarrow> Inr (str_of L v)))"

definition safe_value :: "pylib \<Rightarrow> pydict \<Rightarrow> string \<Rightarrow> exn + string" where
  "safe_value L kwargs n =
     (if positional n then Inl (positional_lookup n)
      else (case map_of kwargs n of
              None \<Rightarrow> Inr (''{'' @ n @ ''}'')
            | Some v \<Rightarrow> Inr (str_of L v)))"

text \<open>Joining the pieces; the first piece that raises ends the call.\<close>

fun render :: "(string \<Rightarrow> exn + string) \<Rightarrow> piece list \<Rightarrow> exn + string" where
  "render gv [] = Inr []"
| "render gv (Lit c # ps) =
     (case render gv ps of Inl e \<Rightarrow> Inl e | Inr r \<Rightarrow> Inr (c # r))"
| "render gv (Repl n # ps) =
     (case gv n of
        Inl e \<Rightarrow> Inl e
      | Inr s \<Rightarrow> (case render gv ps of Inl e \<Rightarrow> Inl e | Inr r \<Rightarrow> Inr (s @ r)))"
| "render gv (Bad e # ps) = Inl e"

definition str_format :: "pylib \<Rightarrow> string \<Rightarrow> pydict \<Rightarrow> exn + string" where
  "str_format L text kwargs = render (strict_value L kwargs) (markup text)"

definition safe_format :: "pylib \<Rightarrow> string \<Rightarrow> pydict \<Rightarrow> exn + string" where
  "safe_format L text kwargs = render (safe_value L kwargs) (markup text)"

subsection \<open>ConfigContext\<close>

text \<open>
  \<open>full_ctx.update(other)\<close> keeps the position of a key it overwrites and appends a new
  one, as \<open>AList.update\<close> does. \<open>base\<close> is \<open>self.base_context\<close>, the \<open>collect\<close> block of the
  configuration; \<open>extra_ctx\<close> is \<open>None\<close> or a dict.
\<close>

definition dict_update :: "pydict \<Rightarrow> pydict \<Rightarrow> pydict" where
  "dict_update d other = fold (\<lambda>(k, v) acc. AList.update k v acc) other d"

definition upper_ctx :: "pylib \<Rightarrow> pydict \<Rightarrow> pydict" where
  "upper_ctx L full_ctx =
     fold (\<lambda>(k, v) acc. AList.update (py_upper L k) (VStr (py_upper L (str_of L v))) acc)
       full_ctx []"

definition full_ctx :: "pylib \<Rightarrow> pydict \<Rightarrow> pydict option \<Rightarrow> pydict" where
  "full_ctx L base extra_ctx =
     (let c = (case extra_ctx of
                 None \<Rightarrow> base
               | Some e \<Rightarrow> if e = [] then base else dict_update base e)
      in dict_update c (upper_ctx L c))"

definition resolve_str ::
  "pylib \<Rightarrow> pydict \<Rightarrow> pyval \<Rightarrow> pydict option \<Rightarrow> bool \<Rightarrow> exn + pyval" where
  "resolve_str L base text extra_ctx strict =
     (case text of
        VStr s \<Rightarrow>
          (if strict then
             (case str_format L s (full_ctx L base extra_ctx) of
                Inl (KeyError k) \<Rightarrow> Inl (CollectorError k s)
              | Inl e \<Rightarrow> Inl e
              | Inr r \<Rightarrow> Inr (VStr r))
           else
             (case safe_format L s (full_ctx L base extra_ctx) of
                Inl e \<Rightarrow> Inl e
              | Inr r \<Rightarrow> Inr (VStr r)))
      | _ \<Rightarrow> Inr text)"

fun resolve_dict ::
  "pylib \<Rightarrow> pydict \<Rightarrow> pydict \<Rightarrow> pydict option \<Rightarrow> bool \<Rightarrow> exn + pydict" where
  "resolve_dict L base [] extra_ctx strict = Inr []"
| "resolve_dict L base ((k, VStr s) # d) extra_ctx strict =
     (case resolve_str L base (VStr s) extra_ctx strict of
        Inl e \<Rightarrow> Inl e
      | Inr v' \<Rightarrow>
          (case resolve_dict L base d extra_ctx strict of
             Inl e \<Rightarrow> Inl e
           | Inr new_d \<Rightarrow> Inr ((k, v') # new_d)))"
| "resolve_dict L base ((k, VDict m) # d) extra_ctx strict =
     (case resolve_dict L base m extra_ctx strict of
        Inl e \<Rightarrow> Inl e
      | Inr m' \<Rightarrow>
          (case resolve_dict L base d extra_ctx strict of
             Inl e \<Rightarrow> Inl e
           | Inr new_d \<Rightarrow> Inr ((k, VDict m') # new_d)))"
| "resolve_dict L base ((k, v) # d) extra_ctx strict =
     (case resolve_dict L base d extra_ctx strict of
        Inl e \<Rightarrow> Inl e
      | Inr new_d \<Rightarrow> Inr ((k, v) # new_d))"

text \<open>
  What \<open>resolve_dict\<close> stores under a key: the three branches of its loop body, for
  one value.
\<close>

definition resolve_value ::
  "pylib \<Rightarrow> pydict \<Rightarrow> pyval \<Rightarrow> pydict option \<Rightarrow> bool \<Rightarrow> exn + pyval" where
  "resolve_value L base v extra_ctx strict =
     (case v of
        VStr s \<Rightarrow> resolve_str L base (VStr s) extra_ctx strict
      | VDict m \<Rightarrow>
          (case resolve_dict L base m extra_ctx strict of
             Inl e \<Rightarrow> Inl e
           | Inr m' \<Rightarrow> Inr (VDict m'))
      | _ \<Rightarrow> Inr v)"

subsection \<open>Templates written as segments\<close>












text \<open>Following a list of keys down nested mappings.\<close>

fun lookup_path :: "pydict \<Rightarrow> string list \<Rightarrow> pyval option" where
  "lookup_path d [] = None"
| "lookup_path d [k] = map_of d k"
| "lookup_path d (k # ks) =
     (case map_of d k of Some (VDict m) \<Rightarrow> lookup_path m ks | _ \<Rightarrow> None)"

text \<open>The string values a document holds directly in its mappings, at any depth.\<close>

fun dict_strings :: "pydict \<Rightarrow> string list" where
  "dict_strings [] = []"
| "dict_strings ((k, VStr s) # d) = s # dict_strings d"
| "dict_strings ((k, VDict m) # d) = dict_strings m @ dict_strings d"
| "dict_strings ((k, v) # d) = dict_strings d"

subsection \<open>run_collector: the item loop of loop mode\<close>

text \<open>
  The \<open>for item in items\<close> loop. \<open>client_get\<close> is \<open>client.get\<close>, the HTTP capability:
  it returns the decoded JSON or raises. \<open>requests\<close> lists the endpoints it was called
  with, \<open>failures\<close> the lines printed by the \<open>except\<close> branch. An item that is not a dict
  has no \<open>get\<close>: the \<open>AttributeError\<close> is raised outside the \<open>try\<close> and ends the loop.
  A template outside the modelled fragment leaves the outcome of the \<open>try\<close> undetermined,
  which the model reports as \<open>Inl OutsideFragment\<close>. \<open>id_field\<close> is taken to be a string.
\<close>

record collected =
  records :: "pyval list"
  requests :: "pyval list"
  failures :: "(pyval \<times> exn) list"

definition item_ctx :: "pylib \<Rightarrow> pyval \<Rightarrow> pydict \<Rightarrow> pydict" where
  "item_ctx L item_id item =
     dict_update [(''id'', item_id)] (map (\<lambda>(k, v). (k, VStr (str_of L v))) item)"

definition collect_item ::
  "pylib \<Rightarrow> pydict \<Rightarrow> (pyval \<Rightarrow> exn + pyval) \<Rightarrow> string \<Rightarrow> pyval \<Rightarrow> pyval \<Rightarrow> collected
     \<Rightarrow> exn + collected" where
  "collect_item L base client_get id_field template item out =
     (case item of
        VDict d \<Rightarrow>
          (let item_id = dict_get d id_field VNone in
           if \<not> truthy item_id then Inr out
           else (case resolve_str L base template (Some (item_ctx L item_id d)) True of
                   Inl OutsideFragment \<Rightarrow> Inl OutsideFragment
                 | Inl e \<Rightarrow> Inr (out\<lparr>failures := failures out @ [(item_id, e)]\<rparr>)
                 | Inr item_url \<Rightarrow>
                     (case client_get item_url of
                        Inl e \<Rightarrow>
                          Inr (out\<lparr>requests := requests out @ [item_url],
                                   failures := failures out @ [(item_id, e)]\<rparr>)
                      | Inr detail_data \<Rightarrow>
                          Inr (out\<lparr>requests := requests out @ [item_url],
                                   records := records out @ [detail_data]\<rparr>))))
      | _ \<Rightarrow> Inl AttributeError)"

fun collect_items ::
  "pylib \<Rightarrow> pydict \<Rightarrow> (pyval \<Rightarrow> exn + pyval) \<Rightarrow> string \<Rightarrow> pyval \<Rightarrow> pyval list \<Rightarrow> collected
     \<Rightarrow> exn + collected" where
  "collect_items L base client_get id_field template [] out = Inr out"
| "collect_items L base client_get id_field template (item # items) out =
     (case collect_item L base client_get id_field template item out of
        Inl e \<Rightarrow> Inl e
      | Inr out' \<Rightarrow> collect_items L base client_get id_field template items out')"

section \<open>storage.py: the spool and the flush engine\<close>

subsection \<open>The local spool\<close>

text \<open>
  The spool is a finite map from a directory below the spool root to the files it holds,
  each a name and its content. A directory is named by its location below the root: its
  components joined by slashes, none of them empty, \<open>.\<close> or \<open>..\<close>. A directory that exists
  and is empty maps to \<open>[]\<close>. Intermediate directories hold no part files and are left
  out, and so are the files of the root itself and everything outside the root.
\<close>

type_synonym spool_dir = "(string \<times> string) list"
type_synonym spool_fs = "(string \<times> spool_dir) list"

definition dir_files :: "spool_fs \<Rightarrow> string \<Rightarrow> spool_dir" where
  "dir_files sp d = (case map_of sp d of None \<Rightarrow> [] | Some fs \<Rightarrow> fs)"

definition ends_with :: "string \<Rightarrow> string \<Rightarrow> bool" where
  "ends_with s suf \<longleftrightarrow> length suf \<le> length s \<and> drop (length s - length suf) s = suf"

definition removesuffix :: "string \<Rightarrow> string \<Rightarrow> string" where
  "removesuffix s suf = (if ends_with s suf then take (length s - length suf) s else s)"

text \<open>
  Paths. \<open>root / name\<close> is a \<open>pathlib\<close> join: it splits \<open>name\<close> at the slashes, drops
  empty and \<open>.\<close> components, and starts again from the file-system root when \<open>name\<close>
  is absolute. Creating the directory then walks the components, \<open>..\<close> stepping up
  (there are no symbolic links, and \<open>..\<close> at the file-system root stays there).
  \<open>spool_root\<close> is the list of components of the spool root's own absolute path.
  \<open>locate\<close> gives the place of \<open>root / name\<close> below the root, or \<open>None\<close> when it is
  not below the root.
\<close>

fun split_slash :: "string \<Rightarrow> string list" where
  "split_slash [] = [[]]"
| "split_slash (c # cs) =
     (if c = CHR ''/'' then [] # split_slash cs
      else (case split_slash cs of [] \<Rightarrow> [[c]] | w # ws \<Rightarrow> (c # w) # ws))"

fun join_slash :: "string list \<Rightarrow> string" where
  "join_slash [] = []"
| "join_slash [w] = w"
| "join_slash (w # ws) = w @ ''/'' @ join_slash ws"

definition path_parts :: "string \<Rightarrow> string list" where
  "path_parts s = filter (\<lambda>w. w \<noteq> [] \<and> w \<noteq> ''.'') (split_slash s)"

definition is_absolute :: "string \<Rightarrow> bool" where
  "is_absolute s \<longleftrightarrow> (case s of [] \<Rightarrow> False | c # _ \<Rightarrow> c = CHR ''/'')"

fun walk :: "string list \<Rightarrow> string list \<Rightarrow> string list" where
  "walk here [] = here"
| "walk here (w # ws) = (if w = ''..'' then walk (butlast here) ws else walk (here @ [w]) ws)"

definition locate :: "string list \<Rightarrow> string \<Rightarrow> string option" where
  "locate spool_root name =
     (let r = walk (if is_absolute name then [] else spool_root) (path_parts name)
      in if length spool_root < length r \<and> take (length spool_root) r = spool_root
         then Some (join_slash (drop (length spool_root) r))
         else None)"

text \<open>
  A path in normal form: relative, and every component between its slashes is a name.
\<close>

definition normal_form :: "string \<Rightarrow> bool" where
  "normal_form s \<longleftrightarrow>
     \<not> is_absolute s
     \<and> list_all (\<lambda>w. w \<noteq> [] \<and> w \<noteq> ''.'' \<and> w \<noteq> ''..'') (split_slash s)"

text \<open>
  \<open>write_to_spool(blob_path, record)\<close>. The second-precision timestamp and the random hex
  of the file name are arguments, and so is \<open>json.dumps\<close>. Returns the new spool, the
  place of the directory below the root, and the name of the file written. When the
  directory is not below the root (it lies outside, or is the root itself), the file
  written is no part of the spool: the spool stays as it was.
\<close>

definition write_to_spool ::
  "string list \<Rightarrow> (pyval \<Rightarrow> string) \<Rightarrow> string \<Rightarrow> string \<Rightarrow> string \<Rightarrow> pyval \<Rightarrow> spool_fs
     \<Rightarrow> spool_fs \<times> string option \<times> string" where
  "write_to_spool spool_root json_dumps stamp uuid_hex blob_path record sp =
     (let parts_dir = locate spool_root (blob_path @ ''.parts'');
          filename = stamp @ ''_'' @ uuid_hex @ ''.jsonl.part'';
          line = json_dumps record @ [CHR 0x0A]
      in (case parts_dir of
            None \<Rightarrow> (sp, None, filename)
          | Some d \<Rightarrow>
              (AList.update d (AList.update filename line (dir_files sp d)) sp, Some d, filename)))"

subsection \<open>build_bronze_path\<close>

definition py_or :: "pyval \<Rightarrow> pyval \<Rightarrow> pyval" where
  "py_or a b = (if truthy a then a else b)"

definition build_bronze_path :: "pylib \<Rightarrow> pydict \<Rightarrow> string \<Rightarrow> exn + string" where
  "build_bronze_path L cfg dt =
     (let storage = dict_get cfg ''storage'' (VDict []) in
      case py_get storage ''bronze_prefix'' (VStr ''bronze'') of
        Inl e \<Rightarrow> Inl e
      | Inr prefix \<Rightarrow>
     (case py_get storage ''system'' VNone of
        Inl e \<Rightarrow> Inl e
      | Inr sys \<Rightarrow>
     (case py_get storage ''dataset'' VNone of
        Inl e \<Rightarrow> Inl e
      | Inr ds \<Rightarrow>
     (case py_get (dict_get cfg ''collect'' (VDict [])) ''node'' VNone of
        Inl e \<Rightarrow> Inl e
      | Inr unique_id \<Rightarrow>
          (let system = py_or sys (dict_get cfg ''source'' VNone);
               dataset = py_or ds (dict_get cfg ''entity'' VNone);
               entity = dict_get cfg ''entity'' VNone;
               filename =
                 (if truthy unique_id
                  then str_of L entity @ ''_'' @ str_of L unique_id @ ''_'' @ dt @ ''.jsonl''
                  else str_of L entity @ ''_'' @ dt @ ''.jsonl'')
           in Inr (str_of L prefix @ ''/'' @ str_of L system @ ''/'' @ str_of L dataset
                   @ ''/dt='' @ dt @ ''/'' @ filename))))))"

subsection \<open>The remote store\<close>

text \<open>
  A container maps a blob name to a blob: its type and the blocks appended so far. The
  SDK and file calls of one pass fail when the fault plan says so (a plan names the blob, or
  the directory and the part, for which a call raises); an append also fails on a blob that
  is missing or not an append blob, as the service rejects it. A failed call changes nothing.
\<close>

datatype blob_kind = AppendBlob | BlockBlob | PageBlob

record blob =
  blob_type :: blob_kind
  blocks :: "string list"

type_synonym container = "(string \<times> blob) list"

record faults =
  exists_fails :: "string \<Rightarrow> bool"
  create_fails :: "string \<Rightarrow> bool"
  read_fails :: "string \<Rightarrow> string \<Rightarrow> bool"
  append_fails :: "string \<Rightarrow> string \<Rightarrow> bool"
  unlink_fails :: "string \<Rightarrow> string \<Rightarrow> bool"

definition no_faults :: faults where
  "no_faults =
     \<lparr>exists_fails = (\<lambda>_. False), create_fails = (\<lambda>_. False),
      read_fails = (\<lambda>_ _. False), append_fails = (\<lambda>_ _. False),
      unlink_fails = (\<lambda>_ _. False)\<rparr>"

definition blob_exists :: "faults \<Rightarrow> container \<Rightarrow> string \<Rightarrow> exn + bool" where
  "blob_exists F c p = (if exists_fails F p then Inl AzureError else Inr (map_of c p \<noteq> None))"

definition create_append_blob :: "faults \<Rightarrow> container \<Rightarrow> string \<Rightarrow> exn + container" where
  "create_append_blob F c p =
     (if create_fails F p then Inl AzureError
      else Inr (AList.update p \<lparr>blob_type = AppendBlob, blocks = []\<rparr> c))"

definition append_block ::
  "faults \<Rightarrow> container \<Rightarrow> string \<Rightarrow> string \<Rightarrow> string \<Rightarrow> exn + container" where
  "append_block F c p part data =
     (if append_fails F p part then Inl AzureError
      else (case map_of c p of
              None \<Rightarrow> Inl AzureError
            | Some b \<Rightarrow>
                if blob_type b = AppendBlob
                then Inr (AList.update p (b\<lparr>blocks := blocks b @ [data]\<rparr>) c)
                else Inl AzureError))"

text \<open>\<open>ensure_append_blob\<close> of unifi_collector/common.py; \<open>die\<close> is \<open>sys.exit\<close>.\<close>

definition ensure_append_blob :: "container \<Rightarrow> string \<Rightarrow> exn + container" where
  "ensure_append_blob c blob_name =
     (case map_of c blob_name of
        Some props \<Rightarrow>
          if blob_type props \<noteq> AppendBlob
          then Inl (SystemExit (''Blob exists but is not AppendBlob: '' @ blob_name))
          else Inr c
      | None \<Rightarrow> Inr (AList.update blob_name \<lparr>blob_type = AppendBlob, blocks = []\<rparr> c))"

subsection \<open>flush_spool\<close>

text \<open>
  \<open>flush_spool(timeout, target_path)\<close> works on the world outside the process: the spool
  directories, the container, and what was printed. \<open>env\<close> holds what the first lines
  read: the connection string (\<open>None\<close> when the variable is unset), whether the SDK was
  imported, and whether building the client raises. \<open>timeout\<close> is only passed on to the
  SDK and is left out. The function returns the two counters and the new world. The
  directories of a sweep are those present when it starts, in the order the spool lists
  them; parts are sorted by file name, as \<open>sorted\<close> does for paths of one directory.
\<close>

record world =
  spool :: spool_fs
  remote :: container
  printed :: "string list"

record env =
  conn_str :: "string option"
  sdk_present :: bool
  client_fails :: bool

record flush_state =
  flushed :: nat
  failed :: nat
  cur :: world

definition read_bytes :: "faults \<Rightarrow> spool_fs \<Rightarrow> string \<Rightarrow> string \<Rightarrow> exn + string" where
  "read_bytes F sp dir name =
     (if read_fails F dir name then Inl OSError
      else (case map_of (dir_files sp dir) name of None \<Rightarrow> Inl OSError | Some data \<Rightarrow> Inr data))"

definition unlink :: "faults \<Rightarrow> spool_fs \<Rightarrow> string \<Rightarrow> string \<Rightarrow> exn + spool_fs" where
  "unlink F sp dir name =
     (if unlink_fails F dir name then Inl OSError
      else (case map_of (dir_files sp dir) name of
              None \<Rightarrow> Inl OSError
            | Some _ \<Rightarrow> Inr (AList.update dir (AList.delete name (dir_files sp dir)) sp)))"

text \<open>\<open>_cleanup_dir\<close>: \<open>rmdir\<close> removes an empty directory; on any other it raises, ignored.\<close>

definition cleanup_dir :: "spool_fs \<Rightarrow> string \<Rightarrow> spool_fs" where
  "cleanup_dir sp dir = (if map_of sp dir = Some [] then AList.delete dir sp else sp)"

text \<open>The files of a directory that match \<open>*.jsonl.part\<close>, sorted by name.\<close>

definition part_names :: "spool_dir \<Rightarrow> string list" where
  "part_names files = sort (filter (\<lambda>n. ends_with n ''.jsonl.part'') (map fst files))"

text \<open>The body of the inner loop: one part.\<close>

definition flush_part :: "faults \<Rightarrow> string \<Rightarrow> string \<Rightarrow> string \<Rightarrow> flush_state \<Rightarrow> flush_state" where
  "flush_part F dir blob_path part s =
     (case read_bytes F (spool (cur s)) dir part of
        Inl e \<Rightarrow> s\<lparr>failed := failed s + 1\<rparr>
      | Inr data \<Rightarrow>
          (case append_block F (remote (cur s)) blob_path part data of
             Inl e \<Rightarrow> s\<lparr>failed := failed s + 1\<rparr>
           | Inr c \<Rightarrow>
               (case unlink F (spool (cur s)) dir part of
                  Inl e \<Rightarrow> s\<lparr>failed := failed s + 1, cur := (cur s)\<lparr>remote := c\<rparr>\<rparr>
                | Inr sp \<Rightarrow>
                    s\<lparr>flushed := flushed s + 1, cur := (cur s)\<lparr>remote := c, spool := sp\<rparr>\<rparr>)))"

text \<open>\<open>if target_path:\<close> holds for a string that is not empty.\<close>

definition given :: "string option \<Rightarrow> string option" where
  "given target_path =
     (case target_path of None \<Rightarrow> None | Some p \<Rightarrow> if p = [] then None else Some p)"

text \<open>Reconstructing the blob path of a directory.\<close>

definition blob_path_for :: "string option \<Rightarrow> string \<Rightarrow> string" where
  "blob_path_for target_path parts_dir =
     (case given target_path of Some p \<Rightarrow> p | None \<Rightarrow> removesuffix parts_dir ''.parts'')"

text \<open>The body of the outer loop: one spool directory.\<close>

definition flush_dir :: "faults \<Rightarrow> string option \<Rightarrow> string \<Rightarrow> flush_state \<Rightarrow> flush_state" where
  "flush_dir F target_path parts_dir s =
     (let blob_path = blob_path_for target_path parts_dir;
          parts = part_names (dir_files (spool (cur s)) parts_dir)
      in if parts = [] then s\<lparr>cur := (cur s)\<lparr>spool := cleanup_dir (spool (cur s)) parts_dir\<rparr>\<rparr>
         else (case blob_exists F (remote (cur s)) blob_path of
                 Inl e \<Rightarrow> s\<lparr>failed := failed s + 1\<rparr>
               | Inr ex \<Rightarrow>
                   (case (if ex then Inr (remote (cur s))
                          else create_append_blob F (remote (cur s)) blob_path) of
                      Inl e \<Rightarrow> s\<lparr>failed := failed s + 1\<rparr>
                    | Inr c \<Rightarrow>
                        (let s1 = fold (flush_part F parts_dir blob_path) parts
                                    (s\<lparr>cur := (cur s)\<lparr>remote := c\<rparr>\<rparr>)
                         in s1\<lparr>cur := (cur s1)\<lparr>spool := cleanup_dir (spool (cur s1)) parts_dir\<rparr>\<rparr>))))"

text \<open>
  The directories to scan: the one of the target when a target is given and its directory
  exists, otherwise what \<open>root.rglob("*.jsonl.parts")\<close> finds below the root. A target
  path is taken in normal form, where the place of the target's directory below the root
  is the path as written with \<open>.parts\<close> appended.
\<close>

definition parts_dirs :: "string option \<Rightarrow> spool_fs \<Rightarrow> string list" where
  "parts_dirs target_path sp =
     (case given target_path of
        Some p \<Rightarrow> (if map_of sp (p @ ''.parts'') \<noteq> None then [p @ ''.parts''] else [])
      | None \<Rightarrow> filter (\<lambda>d. ends_with d ''.jsonl.parts'') (map fst sp))"

definition flush_spool ::
  "env \<Rightarrow> faults \<Rightarrow> string option \<Rightarrow> world \<Rightarrow> (nat \<times> nat) \<times> world" where
  "flush_spool E F target_path w0 =
     (if conn_str E = None \<or> conn_str E = Some [] then ((0, 0), w0)
      else if \<not> sdk_present E then ((0, 0), w0)
      else if client_fails E
      then ((0, 1), w0\<lparr>printed := printed w0 @ [''Storage Init Error'']\<rparr>)
      else (let s = fold (flush_dir F target_path) (parts_dirs target_path (spool w0))
                      \<lparr>flushed = 0, failed = 0, cur = w0\<rparr>
            in ((flushed s, failed s), cur s)))"

text \<open>Fault plans in which one operation fails, for the part named \<open>k\<close>, and nothing else.\<close>

definition append_fails_at :: "string \<Rightarrow> faults" where
  "append_fails_at k = no_faults\<lparr>append_fails := (\<lambda>_ n. n = k)\<rparr>"

definition unlink_fails_at :: "string \<Rightarrow> faults" where
  "unlink_fails_at k = no_faults\<lparr>unlink_fails := (\<lambda>_ n. n = k)\<rparr>"

text \<open>
  A configured environment and a world for the examples: one spool directory for the
  target \<open>bronze/pve/status.jsonl\<close> with three parts, listed by the directory in an
  order that is not the order of their names, and an empty container.
\<close>

definition ready_env :: env where
  "ready_env =
     \<lparr>conn_str = Some ''UseDevelopmentStorage=true'', sdk_present = True, client_fails = False\<rparr>"

definition three_parts :: spool_dir where
  "three_parts =
     [(''20240101T000003_c1.jsonl.part'', ''C''),
      (''20240101T000001_a1.jsonl.part'', ''A''),
      (''20240101T000002_b1.jsonl.part'', ''B'')]"

definition example_world :: world where
  "example_world =
     \<lparr>spool = [(''bronze/pve/status.jsonl.parts'', three_parts)], remote = [], printed = []\<rparr>"

text \<open>Reading the outcome: the blocks of a remote object, and the bytes of a part.\<close>

definition remote_blocks :: "container \<Rightarrow> string \<Rightarrow> string list" where
  "remote_blocks c p = (case map_of c p of None \<Rightarrow> [] | Some b \<Rightarrow> blocks b)"

definition part_data :: "spool_dir \<Rightarrow> string \<Rightarrow> string" where
  "part_data files n = (case map_of files n of None \<Rightarrow> [] | Some data \<Rightarrow> data)"

text \<open>The remote path is free, or holds an append blob.\<close>

definition appendable :: "container \<Rightarrow> string \<Rightarrow> bool" where
  "appendable c p \<longleftrightarrow>
     (case map_of c p of None \<Rightarrow> True | Some b \<Rightarrow> blob_type b = AppendBlob)"

text \<open>A configured environment whose client can be built.\<close>

definition env_ready :: "env \<Rightarrow> bool" where
  "env_ready E \<longleftrightarrow>
     conn_str E \<noteq> None \<and> conn_str E \<noteq> Some [] \<and> sdk_present E \<and> \<not> client_fails E"

section \<open>Scheduler: when a job is due\<close>




section \<open>Interpolation: how the parser reads a template\<close>














section \<open>Interpolation: lenient and strict resolution\<close>







section \<open>Interpolation: documents\<close>

lemma resolve_dict_cons:
  "resolve_dict L base ((k, v) # d) extra strict =
     (case resolve_value L base v extra strict of
        Inl e \<Rightarrow> Inl e
      | Inr v' \<Rightarrow>
          (case resolve_dict L base d extra strict of
             Inl e \<Rightarrow> Inl e
           | Inr new_d \<Rightarrow> Inr ((k, v') # new_d)))"
  by (cases v) (simp_all add: resolve_value_def split: sum.splits)

lemma dict_strings_cons:
  "dict_strings ((k, v) # d) =
     (case v of VStr s \<Rightarrow> [s] | VDict m \<Rightarrow> dict_strings m | _ \<Rightarrow> []) @ dict_strings d"
  by (cases v) simp_all

lemma resolve_dict_total:
  "list_all (\<lambda>s. \<not> isl (resolve_str L base (VStr s) extra strict)) (dict_strings d) \<Longrightarrow>
   \<exists>d'. resolve_dict L base d extra strict = Inr d'"
proof (induction L base d extra strict rule: resolve_dict.induct)
  case (1 L base extra strict)
  then show ?case by simp
next
  case (2 L base k s d extra strict)
  then show ?case by (auto split: sum.splits)
next
  case (3 L base k m d extra strict)
  then show ?case by (auto split: sum.splits)
qed (auto split: sum.splits)

lemma resolve_dict_keys:
  "resolve_dict L base d extra strict = Inr d' \<Longrightarrow> map fst d' = map fst d"
proof (induction d arbitrary: d')
  case Nil
  then show ?case by simp
next
  case (Cons kv d)
  obtain k v where kv: "kv = (k, v)" by (cases kv)
  from Cons show ?case
    unfolding kv resolve_dict_cons by (auto split: sum.splits)
qed

lemma resolve_dict_map_of:
  "resolve_dict L base d extra strict = Inr d' \<Longrightarrow>
   (case map_of d k of
      None \<Rightarrow> map_of d' k = None
    | Some v \<Rightarrow> \<exists>v'. resolve_value L base v extra strict = Inr v' \<and> map_of d' k = Some v')"
proof (induction d arbitrary: d')
  case Nil
  then show ?case by simp
next
  case (Cons kv d)
  obtain k0 v0 where kv: "kv = (k0, v0)" by (cases kv)
  from Cons show ?case
    unfolding kv resolve_dict_cons by (auto split: sum.splits option.splits)
qed

lemma resolve_str_string:
  "resolve_str L base (VStr s) extra strict = Inr v' \<Longrightarrow> \<exists>r. v' = VStr r"
  by (auto simp: resolve_str_def split: sum.splits exn.splits if_splits)

lemma resolve_dict_path:
  "resolve_dict L base d extra strict = Inr d' \<Longrightarrow>
   (case lookup_path d ks of
      None \<Rightarrow> lookup_path d' ks = None
    | Some v \<Rightarrow> \<exists>v'. resolve_value L base v extra strict = Inr v' \<and> lookup_path d' ks = Some v')"
proof (induction d ks arbitrary: d' rule: lookup_path.induct)
  case (1 d)
  then show ?case by simp
next
  case (2 d k)
  from resolve_dict_map_of [OF 2, of k] show ?case by (simp split: option.splits)
next
  case (3 d k k2 ks)
  note step = resolve_dict_map_of [OF "3.prems", of k]
  show ?case
  proof (cases "map_of d k")
    case None
    with step show ?thesis by simp
  next
    case (Some v)
    with step obtain v' where v': "resolve_value L base v extra strict = Inr v'"
      "map_of d' k = Some v'" by auto
    show ?thesis
    proof (cases v)
      case (VDict m)
      with v' obtain m' where m': "resolve_dict L base m extra strict = Inr m'" "v' = VDict m'"
        by (auto simp: resolve_value_def split: sum.splits)
      from "3.IH" [OF Some VDict m'(1)] show ?thesis
        using Some VDict v'(2) m'(2) by (simp split: option.splits)
    next
      case (VStr s)
      with v' obtain r where "v' = VStr r"
        by (auto simp: resolve_value_def dest: resolve_str_string)
      with Some VStr v'(2) show ?thesis by simp
    qed (use Some v' in \<open>auto simp: resolve_value_def\<close>)
  qed
qed

text \<open>
  C4 (as amended). \<open>resolve_dict\<close> returns a new document whenever every string held
  directly by a mapping of the document (at any depth of nested mappings) resolves. The new
  document has the same keys in the same order; under every path of keys, a string value is
  replaced by its resolution, a nested mapping by its resolved mapping, and any other value,
  a sequence included, is passed through unchanged: strings inside a sequence are not resolved.
\<close>

theorem resolve_dict_document:
  assumes "list_all (\<lambda>s. \<not> isl (resolve_str L base (VStr s) extra strict)) (dict_strings d)"
  shows "\<exists>d'. resolve_dict L base d extra strict = Inr d'
      \<and> map fst d' = map fst d
      \<and> (\<forall>ks v. lookup_path d ks = Some v \<longrightarrow>
            (\<exists>v'. resolve_value L base v extra strict = Inr v' \<and> lookup_path d' ks = Some v'))
      \<and> (\<forall>ks. lookup_path d ks = None \<longrightarrow> lookup_path d' ks = None)
      \<and> (\<forall>ks xs. lookup_path d ks = Some (VList xs) \<longrightarrow> lookup_path d' ks = Some (VList xs))"
proof -
  from resolve_dict_total [OF assms] obtain d' where
    d': "resolve_dict L base d extra strict = Inr d'" by blast
  have keys: "map fst d' = map fst d" by (rule resolve_dict_keys [OF d'])
  have some: "\<exists>v'. resolve_value L base v extra strict = Inr v' \<and> lookup_path d' ks = Some v'"
    if "lookup_path d ks = Some v" for ks v
    using resolve_dict_path [OF d', of ks] that by simp
  have none: "lookup_path d' ks = None" if "lookup_path d ks = None" for ks
    using resolve_dict_path [OF d', of ks] that by simp
  have lists: "lookup_path d' ks = Some (VList xs)" if "lookup_path d ks = Some (VList xs)" for ks xs
    using some [OF that] by (simp add: resolve_value_def)
  from d' keys some none lists show ?thesis by blast
qed

theorem resolve_dict_document_witness:
  "list_all (\<lambda>s. \<not> isl (resolve_str example_lib [(''node'', VStr ''hl2'')] (VStr s) None False))
     (dict_strings
        [(''entity'', VStr ''status''),
         (''collect'', VDict [(''node'', VStr ''hl2''), (''endpoint'', VStr ''/nodes/{node}/{id}'')]),
         (''tags'', VList [VStr ''{node}'']),
         (''schema_version'', VInt 1)])
   \<and> resolve_dict example_lib [(''node'', VStr ''hl2'')]
        [(''entity'', VStr ''status''),
         (''collect'', VDict [(''node'', VStr ''hl2''), (''endpoint'', VStr ''/nodes/{node}/{id}'')]),
         (''tags'', VList [VStr ''{node}'']),
         (''schema_version'', VInt 1)] None False
      = Inr [(''entity'', VStr ''status''),
         (''collect'', VDict [(''node'', VStr ''hl2''), (''endpoint'', VStr ''/nodes/hl2/{id}'')]),
         (''tags'', VList [VStr ''{node}'']),
         (''schema_version'', VInt 1)]
   \<and> lookup_path
        [(''entity'', VStr ''status''),
         (''collect'', VDict [(''node'', VStr ''hl2''), (''endpoint'', VStr ''/nodes/{node}/{id}'')]),
         (''tags'', VList [VStr ''{node}'']),
         (''schema_version'', VInt 1)] [''collect'', ''endpoint''] = Some (VStr ''/nodes/{node}/{id}'')
   \<and> resolve_value example_lib [(''node'', VStr ''hl2'')] (VStr ''/nodes/{node}/{id}'') None False
      = Inr (VStr ''/nodes/hl2/{id}'')
   \<and> lookup_path
        [(''entity'', VStr ''status''),
         (''collect'', VDict [(''node'', VStr ''hl2''), (''endpoint'', VStr ''/nodes/{node}/{id}'')]),
         (''tags'', VList [VStr ''{node}'']),
         (''schema_version'', VInt 1)] [''tags''] = Some (VList [VStr ''{node}''])
   \<and> lookup_path
        [(''entity'', VStr ''status''),
         (''collect'', VDict [(''node'', VStr ''hl2''), (''endpoint'', VStr ''/nodes/{node}/{id}'')]),
         (''tags'', VList [VStr ''{node}'']),
         (''schema_version'', VInt 1)] [''collect'', ''mode''] = None"
proof -
  let ?d = "[(''entity'', VStr ''status''),
         (''collect'', VDict [(''node'', VStr ''hl2''), (''endpoint'', VStr ''/nodes/{node}/{id}'')]),
         (''tags'', VList [VStr ''{node}'']),
         (''schema_version'', VInt 1)]"
  let ?base = "[(''node'', VStr ''hl2'')]"
  have h: "list_all (\<lambda>s. \<not> isl (resolve_str example_lib ?base (VStr s) None False))
     (dict_strings ?d)" by code_simp
  have r: "resolve_dict example_lib ?base ?d None False
      = Inr [(''entity'', VStr ''status''),
         (''collect'', VDict [(''node'', VStr ''hl2''), (''endpoint'', VStr ''/nodes/hl2/{id}'')]),
         (''tags'', VList [VStr ''{node}'']),
         (''schema_version'', VInt 1)]" by code_simp
  have p1: "lookup_path ?d [''collect'', ''endpoint''] = Some (VStr ''/nodes/{node}/{id}'')"
    by code_simp
  have p2: "lookup_path ?d [''tags''] = Some (VList [VStr ''{node}''])" by code_simp
  have p3: "lookup_path ?d [''collect'', ''mode''] = None" by code_simp
  have v: "resolve_value example_lib ?base (VStr ''/nodes/{node}/{id}'') None False
      = Inr (VStr ''/nodes/hl2/{id}'')" by code_simp
  from resolve_dict_document [OF h] obtain d' where
    "resolve_dict example_lib ?base ?d None False = Inr d'" by blast
  with r h p1 p2 p3 v show ?thesis by simp
qed

text \<open>
  A string inside a sequence value is returned as it is, although the same string held by a
  mapping would be resolved.
\<close>

theorem resolve_dict_document_counterexample:
  "resolve_dict example_lib [(''node'', VStr ''hl2'')]
     [(''endpoints'', VList [VStr ''/nodes/{node}''])] None False
     = Inr [(''endpoints'', VList [VStr ''/nodes/{node}''])]
   \<and> resolve_str example_lib [(''node'', VStr ''hl2'')] (VStr ''/nodes/{node}'') None False
     = Inr (VStr ''/nodes/hl2'')"
  by code_simp

section \<open>Loop mode: items without an id\<close>

text \<open>
  A mapping whose id field is missing, or whose id is falsy (\<open>None\<close>, \<open>0\<close>, the empty
  string), is skipped: the loop state is returned as it was, with no request made, no record
  added and no failure printed, and the run over the whole list is the run over the list
  without that item.
\<close>

lemma collect_item_skip:
  "\<not> truthy (dict_get d id_field VNone) \<Longrightarrow>
   collect_item L base client_get id_field template (VDict d) out = Inr out"
  by (simp add: collect_item_def)

lemma mapping_item_skipped:
  assumes "\<not> truthy (dict_get d id_field VNone)"
  shows "collect_items L base client_get id_field template (xs @ VDict d # ys) out
           = collect_items L base client_get id_field template (xs @ ys) out"
proof (induction xs arbitrary: out)
  case Nil
  then show ?case by (simp add: collect_item_skip [OF assms])
next
  case (Cons x xs)
  then show ?case by (simp split: sum.splits)
qed

text \<open>
  C10, the code at the failing input. The list holds an item that is not a mapping, here a
  string between two mappings. Such an item has no id field, but \<open>item.get\<close> is called
  before the \<open>isinstance\<close> test and outside the \<open>try\<close>: the loop ends with
  \<open>AttributeError\<close> and the record already fetched is lost with it. Without that item the
  same run fetches both records, and a mapping with a falsy id in its place is skipped.
\<close>

theorem non_mapping_item_raises:
  "collect_items example_lib [] (\<lambda>u. Inr (VList [u])) ''id'' (VStr ''/items/{id}'')
     [VDict [(''id'', VInt 7)], VStr ''offline'', VDict [(''id'', VInt 8)]]
     \<lparr>records = [], requests = [], failures = []\<rparr>
   = Inl AttributeError
   \<and> collect_items example_lib [] (\<lambda>u. Inr (VList [u])) ''id'' (VStr ''/items/{id}'')
        [VDict [(''id'', VInt 7)], VDict [(''id'', VInt 8)]]
        \<lparr>records = [], requests = [], failures = []\<rparr>
      = Inr \<lparr>records = [VList [VStr ''/items/7''], VList [VStr ''/items/8'']],
             requests = [VStr ''/items/7'', VStr ''/items/8''], failures = []\<rparr>
   \<and> collect_items example_lib [] (\<lambda>u. Inr (VList [u])) ''id'' (VStr ''/items/{id}'')
        [VDict [(''id'', VInt 7)], VDict [(''id'', VInt 0)], VDict [(''id'', VInt 8)]]
        \<lparr>records = [], requests = [], failures = []\<rparr>
      = Inr \<lparr>records = [VList [VStr ''/items/7''], VList [VStr ''/items/8'']],
             requests = [VStr ''/items/7'', VStr ''/items/8''], failures = []\<rparr>"
  by code_simp

section \<open>Flush: an unavailable store\<close>

text \<open>
  C8. Without a connection string (unset or empty), or without the store SDK, \<open>flush_spool\<close>
  returns \<open>(0, 0)\<close> and leaves everything as it was. With a connection string and the SDK,
  a client that cannot be built ends the call with \<open>(0, 1)\<close>: one failure however many
  parts are spooled, and neither the spool nor the store is touched.
\<close>

theorem flush_spool_unavailable:
  "(conn_str E = None \<or> conn_str E = Some [] \<or> \<not> sdk_present E
      \<longrightarrow> flush_spool E F target_path w = ((0, 0), w))
   \<and> (conn_str E = Some c \<and> c \<noteq> [] \<and> sdk_present E \<and> client_fails E
      \<longrightarrow> fst (flush_spool E F target_path w) = (0, 1)
        \<and> spool (snd (flush_spool E F target_path w)) = spool w
        \<and> remote (snd (flush_spool E F target_path w)) = remote w)"
  by (auto simp: flush_spool_def)

theorem flush_spool_unavailable_witness:
  "flush_spool (ready_env\<lparr>conn_str := None\<rparr>) no_faults None example_world = ((0, 0), example_world)
   \<and> flush_spool (ready_env\<lparr>conn_str := Some []\<rparr>) no_faults None example_world
      = ((0, 0), example_world)
   \<and> flush_spool (ready_env\<lparr>sdk_present := False\<rparr>) no_faults None example_world
      = ((0, 0), example_world)
   \<and> conn_str (ready_env\<lparr>client_fails := True\<rparr>) = Some ''UseDevelopmentStorage=true''
   \<and> sdk_present (ready_env\<lparr>client_fails := True\<rparr>)
   \<and> client_fails (ready_env\<lparr>client_fails := True\<rparr>)
   \<and> fst (flush_spool (ready_env\<lparr>client_fails := True\<rparr>) no_faults None example_world) = (0, 1)
   \<and> spool (snd (flush_spool (ready_env\<lparr>client_fails := True\<rparr>) no_faults None example_world))
      = spool example_world"
  using flush_spool_unavailable [of "ready_env\<lparr>conn_str := None\<rparr>" no_faults None example_world]
    flush_spool_unavailable [of "ready_env\<lparr>conn_str := Some []\<rparr>" no_faults None example_world]
    flush_spool_unavailable [of "ready_env\<lparr>sdk_present := False\<rparr>" no_faults None example_world]
    flush_spool_unavailable [of "ready_env\<lparr>client_fails := True\<rparr>" no_faults None example_world
      "''UseDevelopmentStorage=true''"]
  by (simp add: ready_env_def)

section \<open>Flush: one target, one failing part\<close>

text \<open>
  The inner loop over the parts \<open>ns\<close> of a directory, when the remote object is an append
  blob and no read fails: which parts are counted, what is left on disk, what is appended.
\<close>

lemma flush_part_step:
  assumes "map_of (spool (cur s)) dir = Some files"
    and "map_of (remote (cur s)) bp = Some b" and "blob_type b = AppendBlob"
    and "map_of files n = Some data" and "\<not> read_fails F dir n"
  shows "flush_part F dir bp n s =
     (if append_fails F bp n then s\<lparr>failed := failed s + 1\<rparr>
      else if unlink_fails F dir n
      then s\<lparr>failed := failed s + 1,
             cur := (cur s)\<lparr>remote := AList.update bp (b\<lparr>blocks := blocks b @ [data]\<rparr>)
                                         (remote (cur s))\<rparr>\<rparr>
      else s\<lparr>flushed := flushed s + 1,
             cur := (cur s)\<lparr>remote := AList.update bp (b\<lparr>blocks := blocks b @ [data]\<rparr>)
                                         (remote (cur s)),
                            spool := AList.update dir (AList.delete n files) (spool (cur s))\<rparr>\<rparr>)"
  using assms
  by (simp add: flush_part_def read_bytes_def append_block_def unlink_def dir_files_def)

lemma map_of_in_keys: "n \<in> fst ` set files \<Longrightarrow> \<exists>data. map_of files n = Some data"
  by (metis domD dom_map_of_conv_image_fst)

lemma part_data_delete: "m \<noteq> n \<Longrightarrow> part_data (AList.delete n files) m = part_data files m"
  by (simp add: part_data_def)

lemma flush_parts_run:
  assumes "map_of (spool (cur s)) dir = Some files"
    and "map_of (remote (cur s)) bp = Some b" and "blob_type b = AppendBlob"
    and "distinct ns" and "set ns \<subseteq> fst ` set files"
    and "\<forall>n\<in>set ns. \<not> read_fails F dir n"
  shows "flushed (fold (flush_part F dir bp) ns s)
           = flushed s + length [n\<leftarrow>ns. \<not> append_fails F bp n \<and> \<not> unlink_fails F dir n]
       \<and> failed (fold (flush_part F dir bp) ns s)
           = failed s + length [n\<leftarrow>ns. \<not> (\<not> append_fails F bp n \<and> \<not> unlink_fails F dir n)]
       \<and> map_of (spool (cur (fold (flush_part F dir bp) ns s))) dir
           = Some [kv\<leftarrow>files. \<not> (fst kv \<in> set ns \<and> \<not> append_fails F bp (fst kv)
                                     \<and> \<not> unlink_fails F dir (fst kv))]
       \<and> map_of (remote (cur (fold (flush_part F dir bp) ns s))) bp
           = Some (b\<lparr>blocks := blocks b @ map (part_data files) [n\<leftarrow>ns. \<not> append_fails F bp n]\<rparr>)
       \<and> printed (cur (fold (flush_part F dir bp) ns s)) = printed (cur s)"
  using assms
proof (induction ns arbitrary: s files b)
  case Nil
  then show ?case by simp
next
  case (Cons n ns)
  from Cons.prems obtain data where data: "map_of files n = Some data"
    using map_of_in_keys [of n files] by auto
  have pd: "part_data files n = data" using data by (simp add: part_data_def)
  have nr: "\<not> read_fails F dir n" using Cons.prems by simp
  note step = flush_part_step [OF Cons.prems(1-3) data nr]
  have dns: "distinct ns" "n \<notin> set ns" "set ns \<subseteq> fst ` set files"
    "\<forall>m\<in>set ns. \<not> read_fails F dir m"
    using Cons.prems by auto
  let ?b' = "b\<lparr>blocks := blocks b @ [data]\<rparr>"
  show ?case
  proof (cases "append_fails F bp n")
    case True
    let ?s1 = "s\<lparr>failed := failed s + 1\<rparr>"
    have s1: "flush_part F dir bp n s = ?s1" using step True by simp
    have "map_of (spool (cur ?s1)) dir = Some files" "map_of (remote (cur ?s1)) bp = Some b"
      using Cons.prems by simp_all
    from Cons.IH [OF this Cons.prems(3) dns(1,3,4)] show ?thesis
      using True s1 by (auto intro!: filter_cong)
  next
    case False
    note ok = False
    show ?thesis
    proof (cases "unlink_fails F dir n")
      case True
      let ?s1 = "s\<lparr>failed := failed s + 1,
             cur := (cur s)\<lparr>remote := AList.update bp ?b' (remote (cur s))\<rparr>\<rparr>"
      have s1: "flush_part F dir bp n s = ?s1" using step ok True by simp
      have a: "map_of (spool (cur ?s1)) dir = Some files" using Cons.prems by simp
      have b: "map_of (remote (cur ?s1)) bp = Some ?b'" by (simp add: update_conv')
      have c: "blob_type ?b' = AppendBlob" using Cons.prems by simp
      from Cons.IH [OF a b c dns(1,3,4)] show ?thesis
        using ok True s1 pd by (auto intro!: filter_cong)
    next
      case False
      let ?files1 = "AList.delete n files"
      let ?s1 = "s\<lparr>flushed := flushed s + 1,
             cur := (cur s)\<lparr>remote := AList.update bp ?b' (remote (cur s)),
                            spool := AList.update dir ?files1 (spool (cur s))\<rparr>\<rparr>"
      have s1: "flush_part F dir bp n s = ?s1" using step ok False by simp
      have a: "map_of (spool (cur ?s1)) dir = Some ?files1" by (simp add: update_conv')
      have b: "map_of (remote (cur ?s1)) bp = Some ?b'" by (simp add: update_conv')
      have c: "blob_type ?b' = AppendBlob" using Cons.prems by simp
      have sub: "set ns \<subseteq> fst ` set ?files1"
      proof
        fix m assume m: "m \<in> set ns"
        with dns obtain v where "(m, v) \<in> set files" by force
        moreover have "m \<noteq> n" using m dns(2) by auto
        ultimately have "(m, v) \<in> set ?files1" by (simp add: AList.delete_eq)
        then show "m \<in> fst ` set ?files1" by force
      qed
      have pd1: "map (part_data ?files1) [m\<leftarrow>ns. \<not> append_fails F bp m]
          = map (part_data files) [m\<leftarrow>ns. \<not> append_fails F bp m]"
        using dns(2) by (intro map_cong refl part_data_delete) auto
      have fl: "[kv\<leftarrow>?files1. \<not> (fst kv \<in> set ns \<and> \<not> append_fails F bp (fst kv)
                                     \<and> \<not> unlink_fails F dir (fst kv))]
          = [kv\<leftarrow>files. \<not> (fst kv \<in> set (n # ns) \<and> \<not> append_fails F bp (fst kv)
                                     \<and> \<not> unlink_fails F dir (fst kv))]"
        using ok False by (induction files) auto
      note ih = Cons.IH [OF a b c dns(1) sub dns(4)]
      have "fold (flush_part F dir bp) (n # ns) s = fold (flush_part F dir bp) ns ?s1"
        using s1 by simp
      moreover have "flushed ?s1 = flushed s + 1" "failed ?s1 = failed s"
        "printed (cur ?s1) = printed (cur s)" by simp_all
      moreover have "blocks ?b' @ map (part_data files) [m\<leftarrow>ns. \<not> append_fails F bp m]
         = blocks b @ map (part_data files) [m\<leftarrow>n # ns. \<not> append_fails F bp m]"
        using ok pd by simp
      ultimately show ?thesis
        using ih ok False unfolding pd1 fl by simp
    qed
  qed
qed


lemma part_names_keys: "set (part_names files) \<subseteq> fst ` set files"
  by (auto simp: part_names_def)

lemma part_names_distinct: "distinct (map fst files) \<Longrightarrow> distinct (part_names files)"
  by (simp add: part_names_def)

lemma cleanup_dir_lookup:
  "map_of (cleanup_dir sp dir) d =
     (if d = dir \<and> map_of sp dir = Some [] then None else map_of sp d)"
  by (simp add: cleanup_dir_def delete_conv')

lemma flush_dir_run:
  assumes bp: "blob_path_for t dir = p"
    and files: "map_of (spool (cur s)) dir = Some files" "distinct (map fst files)"
    and parts: "part_names files \<noteq> []"
    and store: "appendable (remote (cur s)) p"
    and F: "\<not> exists_fails F p" "\<not> create_fails F p" "\<forall>n. \<not> read_fails F dir n"
  shows "flushed (flush_dir F t dir s)
           = flushed s + length [n\<leftarrow>part_names files. \<not> append_fails F p n \<and> \<not> unlink_fails F dir n]"
    and "failed (flush_dir F t dir s)
           = failed s + length [n\<leftarrow>part_names files. \<not> (\<not> append_fails F p n \<and> \<not> unlink_fails F dir n)]"
    and "map_of (spool (cur (flush_dir F t dir s))) dir
           = (let rest = [kv\<leftarrow>files. \<not> (fst kv \<in> set (part_names files) \<and> \<not> append_fails F p (fst kv)
                                     \<and> \<not> unlink_fails F dir (fst kv))]
              in if rest = [] then None else Some rest)"
    and "map_of (remote (cur (flush_dir F t dir s))) p
           = Some \<lparr>blob_type = AppendBlob,
                   blocks = remote_blocks (remote (cur s)) p
                     @ map (part_data files) [n\<leftarrow>part_names files. \<not> append_fails F p n]\<rparr>"
    and "printed (cur (flush_dir F t dir s)) = printed (cur s)"
proof -
  define c where "c = (if map_of (remote (cur s)) p \<noteq> None then remote (cur s)
      else AList.update p \<lparr>blob_type = AppendBlob, blocks = []\<rparr> (remote (cur s)))"
  define b where "b = \<lparr>blob_type = AppendBlob, blocks = remote_blocks (remote (cur s)) p\<rparr>"
  define s0 where "s0 = s\<lparr>cur := (cur s)\<lparr>remote := c\<rparr>\<rparr>"
  define s1 where "s1 = fold (flush_part F dir p) (part_names files) s0"
  have cb: "map_of c p = Some b"
    using store
    by (cases "map_of (remote (cur s)) p")
      (auto simp: c_def b_def appendable_def remote_blocks_def update_conv')
  have fd: "flush_dir F t dir s = s1\<lparr>cur := (cur s1)\<lparr>spool := cleanup_dir (spool (cur s1)) dir\<rparr>\<rparr>"
    using parts F(1,2) files(1) bp
    by (simp add: flush_dir_def Let_def dir_files_def blob_exists_def create_append_blob_def
        s1_def s0_def c_def)
  have a0: "map_of (spool (cur s0)) dir = Some files" using files by (simp add: s0_def)
  have b0: "map_of (remote (cur s0)) p = Some b" using cb by (simp add: s0_def)
  have t0: "blob_type b = AppendBlob" by (simp add: b_def)
  have r0: "\<forall>n\<in>set (part_names files). \<not> read_fails F dir n" using F(3) by simp
  note run = flush_parts_run [OF a0 b0 t0 part_names_distinct [OF files(2)]
      part_names_keys r0, folded s1_def]
  show "flushed (flush_dir F t dir s)
           = flushed s + length [n\<leftarrow>part_names files. \<not> append_fails F p n \<and> \<not> unlink_fails F dir n]"
    using run by (simp add: fd s0_def)
  show "failed (flush_dir F t dir s)
           = failed s + length [n\<leftarrow>part_names files. \<not> (\<not> append_fails F p n \<and> \<not> unlink_fails F dir n)]"
    using run by (simp add: fd s0_def)
  show "map_of (spool (cur (flush_dir F t dir s))) dir
           = (let rest = [kv\<leftarrow>files. \<not> (fst kv \<in> set (part_names files) \<and> \<not> append_fails F p (fst kv)
                                     \<and> \<not> unlink_fails F dir (fst kv))]
              in if rest = [] then None else Some rest)"
    using run by (simp add: fd cleanup_dir_lookup Let_def)
  show "map_of (remote (cur (flush_dir F t dir s))) p
           = Some \<lparr>blob_type = AppendBlob,
                   blocks = remote_blocks (remote (cur s)) p
                     @ map (part_data files) [n\<leftarrow>part_names files. \<not> append_fails F p n]\<rparr>"
    using run by (simp add: fd b_def)
  show "printed (cur (flush_dir F t dir s)) = printed (cur s)"
    using run by (simp add: fd s0_def)
qed

lemma flush_spool_target:
  assumes "env_ready E" "p \<noteq> []"
    and "map_of (spool w) (p @ ''.parts'') = Some files"
  shows "flush_spool E F (Some p) w =
     (let s = flush_dir F (Some p) (p @ ''.parts'') \<lparr>flushed = 0, failed = 0, cur = w\<rparr>
      in ((flushed s, failed s), cur s))"
  using assms
  by (auto simp: flush_spool_def env_ready_def parts_dirs_def given_def Let_def)


lemma part_names_filter:
  "part_names [kv\<leftarrow>files. Q (fst kv)] = [n\<leftarrow>part_names files. Q n]"
proof -
  have "map fst [kv\<leftarrow>files. Q (fst kv)] = [n\<leftarrow>map fst files. Q n]"
    by (induction files) auto
  then show ?thesis
    by (simp add: part_names_def filter_sort conj_commute)
qed

lemma map_of_filter_key:
  "Q k \<Longrightarrow> map_of [kv\<leftarrow>files. Q (fst kv)] k = map_of files k"
  by (induction files) auto

lemma filter_only: "distinct xs \<Longrightarrow> k \<in> set xs \<Longrightarrow> [n\<leftarrow>xs. n = k] = [k]"
  by (induction xs) (auto simp: filter_empty_conv)

lemma filter_others_length:
  assumes "distinct xs" "k \<in> set xs"
  shows "length [n\<leftarrow>xs. n \<noteq> k] = length xs - 1"
proof -
  have "length [n\<leftarrow>xs. n = k] + length [n\<leftarrow>xs. n \<noteq> k] = length xs"
    by (rule sum_length_filter_compl)
  then show ?thesis using filter_only [OF assms] by simp
qed

lemma no_faults_simps:
  "exists_fails no_faults p = False" "create_fails no_faults p = False"
  "read_fails no_faults d n = False" "append_fails no_faults p n = False"
  "unlink_fails no_faults d n = False"
  by (simp_all add: no_faults_def)

text \<open>What is left in the directory when every part but \<open>k\<close> has been removed.\<close>

lemma left_behind:
  assumes "distinct (map fst files)" "k \<in> set (part_names files)"
  defines "rest \<equiv> [kv\<leftarrow>files. \<not> (fst kv \<in> set (part_names files) \<and> fst kv \<noteq> k)]"
  shows "rest \<noteq> []" "distinct (map fst rest)" "part_names rest = [k]"
    "part_data rest k = part_data files k"
proof -
  have d: "distinct (part_names files)" by (rule part_names_distinct [OF assms(1)])
  have "k \<in> fst ` set files" using assms(2) part_names_keys by blast
  then obtain v where "(k, v) \<in> set files" by force
  then have "(k, v) \<in> set rest" by (simp add: rest_def)
  then show "rest \<noteq> []" by auto
  show "distinct (map fst rest)"
    using assms(1) by (simp add: rest_def distinct_map_filter)
  have "part_names rest = [n\<leftarrow>part_names files. \<not> (n \<in> set (part_names files) \<and> n \<noteq> k)]"
    unfolding rest_def by (rule part_names_filter)
  also have "\<dots> = [n\<leftarrow>part_names files. n = k]"
    by (rule filter_cong) auto
  also have "\<dots> = [k]" by (rule filter_only [OF d assms(2)])
  finally show "part_names rest = [k]" .
  show "part_data rest k = part_data files k"
    unfolding rest_def part_data_def
    by (subst map_of_filter_key [where Q = "\<lambda>n. \<not> (n \<in> set (part_names files) \<and> n \<noteq> k)"]) simp_all
qed

text \<open>A later pass over a directory whose only part is \<open>k\<close>, with nothing failing.\<close>

lemma flush_last_part:
  assumes env: "env_ready E" "p \<noteq> []"
    and files: "map_of (spool w) (p @ ''.parts'') = Some rest" "distinct (map fst rest)"
    and only: "part_names rest = [k]"
    and store: "map_of (remote w) p = Some b" "blob_type b = AppendBlob"
  shows "fst (flush_spool E no_faults (Some p) w) = (1, 0)"
    and "remote_blocks (remote (snd (flush_spool E no_faults (Some p) w))) p
           = blocks b @ [part_data rest k]"
    and "part_names (dir_files (spool (snd (flush_spool E no_faults (Some p) w))) (p @ ''.parts'')) = []"
proof -
  let ?dir = "p @ ''.parts''"
  let ?s = "flush_dir no_faults (Some p) ?dir \<lparr>flushed = 0, failed = 0, cur = w\<rparr>"
  have fs: "flush_spool E no_faults (Some p) w = ((flushed ?s, failed ?s), cur ?s)"
    using flush_spool_target [OF env files(1)] by (simp add: Let_def)
  have bp: "blob_path_for (Some p) ?dir = p"
    using env(2) by (simp add: blob_path_for_def given_def)
  have ne: "part_names rest \<noteq> []" using only by simp
  have ap: "appendable (remote (cur \<lparr>flushed = 0, failed = 0, cur = w\<rparr>)) p"
    using store by (simp add: appendable_def)
  have F: "\<not> exists_fails no_faults p" "\<not> create_fails no_faults p"
    "\<forall>n. \<not> read_fails no_faults ?dir n"
    by (simp_all add: no_faults_simps)
  have f0: "map_of (spool (cur \<lparr>flushed = 0, failed = 0, cur = w\<rparr>)) ?dir = Some rest"
    using files(1) by simp
  note run = flush_dir_run [OF bp f0 files(2) ne ap F]
  show "fst (flush_spool E no_faults (Some p) w) = (1, 0)"
    using run(1,2) only by (simp add: fs no_faults_simps)
  show "remote_blocks (remote (snd (flush_spool E no_faults (Some p) w))) p
           = blocks b @ [part_data rest k]"
    using run(4) only store by (simp add: fs no_faults_simps remote_blocks_def)
  have "dir_files (spool (cur ?s)) ?dir = [kv\<leftarrow>rest. \<not> (fst kv \<in> set (part_names rest))]"
    using run(3) by (simp add: dir_files_def Let_def no_faults_simps)
  then show "part_names (dir_files (spool (snd (flush_spool E no_faults (Some p) w))) ?dir) = []"
    using part_names_filter [of "\<lambda>n. n \<notin> set (part_names rest)" rest]
    by (simp add: fs)
qed


text \<open>A pass in which exactly the part \<open>k\<close> is not both appended and removed.\<close>

lemma flush_one_failure:
  assumes env: "env_ready E" "p \<noteq> []"
    and files: "map_of (spool w) (p @ ''.parts'') = Some files" "distinct (map fst files)"
    and k: "k \<in> set (part_names files)"
    and store: "appendable (remote w) p"
    and F: "\<not> exists_fails F p" "\<not> create_fails F p" "\<forall>n. \<not> read_fails F (p @ ''.parts'') n"
    and one: "\<forall>n. (\<not> append_fails F p n \<and> \<not> unlink_fails F (p @ ''.parts'') n) \<longleftrightarrow> n \<noteq> k"
  shows "fst (flush_spool E F (Some p) w) = (length (part_names files) - 1, 1)"
    and "map_of (spool (snd (flush_spool E F (Some p) w))) (p @ ''.parts'')
           = Some [kv\<leftarrow>files. \<not> (fst kv \<in> set (part_names files) \<and> fst kv \<noteq> k)]"
    and "map_of (remote (snd (flush_spool E F (Some p) w))) p
           = Some \<lparr>blob_type = AppendBlob,
                   blocks = remote_blocks (remote w) p
                     @ map (part_data files) [n\<leftarrow>part_names files. \<not> append_fails F p n]\<rparr>"
proof -
  let ?dir = "p @ ''.parts''"
  let ?s = "flush_dir F (Some p) ?dir \<lparr>flushed = 0, failed = 0, cur = w\<rparr>"
  have fs: "flush_spool E F (Some p) w = ((flushed ?s, failed ?s), cur ?s)"
    using flush_spool_target [OF env files(1)] by (simp add: Let_def)
  have bp: "blob_path_for (Some p) ?dir = p"
    using env(2) by (simp add: blob_path_for_def given_def)
  have ne: "part_names files \<noteq> []" using k by auto
  have ap: "appendable (remote (cur \<lparr>flushed = 0, failed = 0, cur = w\<rparr>)) p"
    using store by simp
  have f0: "map_of (spool (cur \<lparr>flushed = 0, failed = 0, cur = w\<rparr>)) ?dir = Some files"
    using files(1) by simp
  note run = flush_dir_run [OF bp f0 files(2) ne ap F]
  have d: "distinct (part_names files)" by (rule part_names_distinct [OF files(2)])
  have gone: "[n\<leftarrow>part_names files. \<not> append_fails F p n \<and> \<not> unlink_fails F ?dir n]
      = [n\<leftarrow>part_names files. n \<noteq> k]"
    using one by simp
  have kept: "[n\<leftarrow>part_names files. \<not> (\<not> append_fails F p n \<and> \<not> unlink_fails F ?dir n)]
      = [n\<leftarrow>part_names files. n = k]"
    using one by simp
  have rest: "[kv\<leftarrow>files. \<not> (fst kv \<in> set (part_names files) \<and> \<not> append_fails F p (fst kv)
                                     \<and> \<not> unlink_fails F ?dir (fst kv))]
      = [kv\<leftarrow>files. \<not> (fst kv \<in> set (part_names files) \<and> fst kv \<noteq> k)]"
    using one by simp
  show "fst (flush_spool E F (Some p) w) = (length (part_names files) - 1, 1)"
    using run(1,2) unfolding gone kept
    by (simp add: fs filter_only [OF d k] filter_others_length [OF d k])
  show "map_of (spool (snd (flush_spool E F (Some p) w))) ?dir
           = Some [kv\<leftarrow>files. \<not> (fst kv \<in> set (part_names files) \<and> fst kv \<noteq> k)]"
    using run(3) left_behind(1) [OF files(2) k] unfolding rest
    by (simp add: fs Let_def)
  show "map_of (remote (snd (flush_spool E F (Some p) w))) p
           = Some \<lparr>blob_type = AppendBlob,
                   blocks = remote_blocks (remote w) p
                     @ map (part_data files) [n\<leftarrow>part_names files. \<not> append_fails F p n]\<rparr>"
    using run(4) by (simp add: fs)
qed

lemma append_fails_at_simps:
  "exists_fails (append_fails_at k) p = False" "create_fails (append_fails_at k) p = False"
  "read_fails (append_fails_at k) d n = False" "append_fails (append_fails_at k) p n = (n = k)"
  "unlink_fails (append_fails_at k) d n = False"
  by (simp_all add: append_fails_at_def no_faults_def)

lemma unlink_fails_at_simps:
  "exists_fails (unlink_fails_at k) p = False" "create_fails (unlink_fails_at k) p = False"
  "read_fails (unlink_fails_at k) d n = False" "append_fails (unlink_fails_at k) p n = False"
  "unlink_fails (unlink_fails_at k) d n = (n = k)"
  by (simp_all add: unlink_fails_at_def no_faults_def)

text \<open>
  One target, the append of the part \<open>k\<close> failing and nothing else, stated over the
  parts as the flush lists them.
\<close>

lemma append_failure_run:
  assumes "env_ready E" and "p \<noteq> []"
    and "map_of (spool w) (p @ ''.parts'') = Some files" and "distinct (map fst files)"
    and "k \<in> set (part_names files)"
    and "appendable (remote w) p"
  shows "let r1 = flush_spool E (append_fails_at k) (Some p) w;
             r2 = flush_spool E no_faults (Some p) (snd r1)
         in fst r1 = (length (part_names files) - 1, 1)
          \<and> remote_blocks (remote (snd r1)) p
              = remote_blocks (remote w) p @ map (part_data files) [n\<leftarrow>part_names files. n \<noteq> k]
          \<and> part_names (dir_files (spool (snd r1)) (p @ ''.parts'')) = [k]
          \<and> fst r2 = (1, 0)
          \<and> remote_blocks (remote (snd r2)) p
              = remote_blocks (remote w) p @ map (part_data files) [n\<leftarrow>part_names files. n \<noteq> k]
                  @ [part_data files k]
          \<and> part_names (dir_files (spool (snd r2)) (p @ ''.parts'')) = []"
proof -
  let ?dir = "p @ ''.parts''"
  let ?F = "append_fails_at k"
  let ?rest = "[kv\<leftarrow>files. \<not> (fst kv \<in> set (part_names files) \<and> fst kv \<noteq> k)]"
  let ?w1 = "snd (flush_spool E ?F (Some p) w)"
  let ?b1 = "\<lparr>blob_type = AppendBlob,
       blocks = remote_blocks (remote w) p
         @ map (part_data files) [n\<leftarrow>part_names files. n \<noteq> k]\<rparr>"
  have F: "\<not> exists_fails ?F p" "\<not> create_fails ?F p" "\<forall>n. \<not> read_fails ?F ?dir n"
    "\<forall>n. (\<not> append_fails ?F p n \<and> \<not> unlink_fails ?F ?dir n) \<longleftrightarrow> n \<noteq> k"
    by (simp_all add: append_fails_at_simps)
  note first = flush_one_failure [OF assms F]
  have sp1: "map_of (spool ?w1) ?dir = Some ?rest" by (rule first(2))
  have re1: "map_of (remote ?w1) p = Some ?b1"
    using first(3) by (simp add: append_fails_at_simps)
  note left = left_behind [OF assms(4,5)]
  note second = flush_last_part [OF assms(1,2) sp1 left(2,3) re1]
  show ?thesis
    unfolding Let_def
    using first(1) sp1 re1 left(3,4) second
    by (simp add: remote_blocks_def dir_files_def)
qed

lemma sort_single: "sort xs = [k] \<Longrightarrow> xs = [k]"
proof -
  assume a: "sort xs = [k]"
  have "length xs = 1" using arg_cong [OF a, of length] by simp
  moreover have "set xs = {k}" using arg_cong [OF a, of set] by simp
  ultimately show ?thesis by (cases xs) auto
qed

lemma sort_empty: "sort xs = [] \<Longrightarrow> xs = []"
proof -
  assume a: "sort xs = []"
  have "length xs = 0" using arg_cong [OF a, of length] by simp
  then show ?thesis by simp
qed

lemma filter_absent: "x \<notin> set xs \<Longrightarrow> [n\<leftarrow>xs. n \<noteq> x] = xs"
  by (induction xs) auto

lemma part_names_unique:
  assumes "distinct (map fst files)" "sorted ns" "distinct ns"
    and "set ns = set [n\<leftarrow>map fst files. ends_with n ''.jsonl.part'']"
  shows "part_names files = ns"
proof (rule sorted_distinct_set_unique)
  show "sorted (part_names files)" by (simp add: part_names_def)
  show "distinct (part_names files)" by (rule part_names_distinct [OF assms(1)])
  show "sorted ns" "distinct ns" by fact+
  show "set (part_names files) = set ns" using assms(4) by (simp add: part_names_def)
qed

lemma filter_drop_nth:
  assumes "distinct ns" "i < length ns"
  shows "[n\<leftarrow>ns. n \<noteq> ns ! i] = take i ns @ drop (Suc i) ns"
proof -
  have split: "ns = take i ns @ ns ! i # drop (Suc i) ns"
    by (rule id_take_nth_drop [OF assms(2)])
  then have "distinct (take i ns @ ns ! i # drop (Suc i) ns)" using assms(1) by simp
  then have "ns ! i \<notin> set (take i ns)" "ns ! i \<notin> set (drop (Suc i) ns)" by auto
  then have "[n\<leftarrow>take i ns @ ns ! i # drop (Suc i) ns. n \<noteq> ns ! i]
      = take i ns @ drop (Suc i) ns"
    by (simp add: filter_absent)
  with split show ?thesis by simp
qed

text \<open>
  C2 (as amended). One target whose parts, in sorted file-name order, are \<open>ns\<close>; the append
  of the part at position \<open>i\<close> fails and nothing else does. The parts before and after it
  are uploaded, in that order, and deleted; the counts are \<open>(N - 1, 1)\<close> and the failed
  part is the only one left on disk. A second pass without failures uploads exactly that
  part, after the parts already uploaded, and leaves no part.
\<close>

theorem flush_append_failure:
  assumes "env_ready E" and "p \<noteq> []"
    and "map_of (spool w) (p @ ''.parts'') = Some files" and "distinct (map fst files)"
    and "sorted ns" and "distinct ns"
    and "set ns = set [n\<leftarrow>map fst files. ends_with n ''.jsonl.part'']"
    and "i < length ns"
    and "appendable (remote w) p"
  shows "let r1 = flush_spool E (append_fails_at (ns ! i)) (Some p) w;
             r2 = flush_spool E no_faults (Some p) (snd r1)
         in fst r1 = (length ns - 1, 1)
          \<and> remote_blocks (remote (snd r1)) p
              = remote_blocks (remote w) p @ map (part_data files) (take i ns @ drop (Suc i) ns)
          \<and> [n\<leftarrow>map fst (dir_files (spool (snd r1)) (p @ ''.parts'')). ends_with n ''.jsonl.part'']
              = [ns ! i]
          \<and> fst r2 = (1, 0)
          \<and> remote_blocks (remote (snd r2)) p
              = remote_blocks (remote w) p @ map (part_data files) (take i ns @ drop (Suc i) ns)
                  @ [part_data files (ns ! i)]
          \<and> [n\<leftarrow>map fst (dir_files (spool (snd r2)) (p @ ''.parts'')). ends_with n ''.jsonl.part'']
              = []"
proof -
  have pn: "part_names files = ns"
    by (rule part_names_unique [OF assms(4,5,6,7)])
  have k: "ns ! i \<in> set (part_names files)" using assms(8) pn by simp
  note run = append_failure_run [OF assms(1,2,3,4) k assms(9), unfolded Let_def pn]
  have one: "[n\<leftarrow>map fst fs. ends_with n ''.jsonl.part''] = [x]" if "part_names fs = [x]" for fs x
    using that by (simp add: part_names_def sort_single)
  have none: "[n\<leftarrow>map fst fs. ends_with n ''.jsonl.part''] = []" if "part_names fs = []" for fs
    using that by (simp add: part_names_def sort_empty)
  show ?thesis
    unfolding Let_def
    using run one none filter_drop_nth [OF assms(6,8)] by simp
qed

theorem flush_append_failure_witness:
  "env_ready ready_env \<and> ''bronze/pve/status.jsonl'' \<noteq> []
   \<and> map_of (spool example_world) (''bronze/pve/status.jsonl'' @ ''.parts'') = Some three_parts
   \<and> distinct (map fst three_parts)
   \<and> sorted [''20240101T000001_a1.jsonl.part'', ''20240101T000002_b1.jsonl.part'',
        ''20240101T000003_c1.jsonl.part'']
   \<and> distinct [''20240101T000001_a1.jsonl.part'', ''20240101T000002_b1.jsonl.part'',
        ''20240101T000003_c1.jsonl.part'']
   \<and> set [''20240101T000001_a1.jsonl.part'', ''20240101T000002_b1.jsonl.part'',
        ''20240101T000003_c1.jsonl.part'']
      = set [n\<leftarrow>map fst three_parts. ends_with n ''.jsonl.part'']
   \<and> (1 :: nat) < length [''20240101T000001_a1.jsonl.part'', ''20240101T000002_b1.jsonl.part'',
        ''20240101T000003_c1.jsonl.part'']
   \<and> appendable (remote example_world) ''bronze/pve/status.jsonl''
   \<and> (let r1 = flush_spool ready_env (append_fails_at ''20240101T000002_b1.jsonl.part'')
                  (Some ''bronze/pve/status.jsonl'') example_world;
           r2 = flush_spool ready_env no_faults (Some ''bronze/pve/status.jsonl'') (snd r1)
       in fst r1 = (2, 1)
        \<and> remote_blocks (remote (snd r1)) ''bronze/pve/status.jsonl'' = [''A'', ''C'']
        \<and> [n\<leftarrow>map fst (dir_files (spool (snd r1)) ''bronze/pve/status.jsonl.parts'').
              ends_with n ''.jsonl.part'']
            = [''20240101T000002_b1.jsonl.part'']
        \<and> fst r2 = (1, 0)
        \<and> remote_blocks (remote (snd r2)) ''bronze/pve/status.jsonl'' = [''A'', ''C'', ''B'']
        \<and> [n\<leftarrow>map fst (dir_files (spool (snd r2)) ''bronze/pve/status.jsonl.parts'').
              ends_with n ''.jsonl.part''] = [])"
proof -
  let ?p = "''bronze/pve/status.jsonl''"
  let ?ns = "[''20240101T000001_a1.jsonl.part'', ''20240101T000002_b1.jsonl.part'',
        ''20240101T000003_c1.jsonl.part'']"
  have h1: "env_ready ready_env" by code_simp
  have h2: "?p \<noteq> []" by simp
  have h3: "map_of (spool example_world) (?p @ ''.parts'') = Some three_parts" by code_simp
  have h4: "distinct (map fst three_parts)" by code_simp
  have h5: "sorted ?ns" by code_simp
  have h6: "distinct ?ns" by code_simp
  have l: "[n\<leftarrow>map fst three_parts. ends_with n ''.jsonl.part'']
      = [''20240101T000003_c1.jsonl.part'', ''20240101T000001_a1.jsonl.part'',
         ''20240101T000002_b1.jsonl.part'']" by code_simp
  have h7: "set ?ns = set [n\<leftarrow>map fst three_parts. ends_with n ''.jsonl.part'']"
    unfolding l by auto
  have h8: "(1 :: nat) < length ?ns" by simp
  have h9: "appendable (remote example_world) ?p" by code_simp
  have e2: "remote_blocks (remote example_world) ?p
      @ map (part_data three_parts) (take 1 ?ns @ drop (Suc 1) ?ns) = [''A'', ''C'']"
    by code_simp
  have e3: "part_data three_parts (?ns ! 1) = ''B''" by code_simp
  have e4: "?ns ! 1 = ''20240101T000002_b1.jsonl.part''" by simp
  from flush_append_failure [OF h1 h2 h3 h4 h5 h6 h7 h8 h9]
  show ?thesis
    unfolding Let_def using h1 h3 h4 h5 h6 h7 h9 e2 e3 e4 by simp
qed

text \<open>
  With three parts and a failing append of the second, the third does not stay on disk:
  only the second remains, and after the next pass the remote order is first, third, second.
\<close>

theorem flush_append_failure_counterexample:
  "part_names (dir_files (spool (snd (flush_spool ready_env
       (append_fails_at ''20240101T000002_b1.jsonl.part'')
       (Some ''bronze/pve/status.jsonl'') example_world))) ''bronze/pve/status.jsonl.parts'')
     = [''20240101T000002_b1.jsonl.part'']
   \<and> remote_blocks (remote (snd (flush_spool ready_env no_faults (Some ''bronze/pve/status.jsonl'')
        (snd (flush_spool ready_env (append_fails_at ''20240101T000002_b1.jsonl.part'')
           (Some ''bronze/pve/status.jsonl'') example_world))))) ''bronze/pve/status.jsonl''
     = [''A'', ''C'', ''B'']"
  by code_simp

text \<open>
  C1 (as amended). One target with N parts; deleting the part \<open>k\<close> fails after its bytes
  were appended, and nothing else fails. The part is counted as failed, not as flushed:
  the counts are \<open>(N - 1, 1)\<close>. All N parts are on the remote object, in order, and \<open>k\<close>
  is still on disk; a second pass without failures appends the bytes of \<open>k\<close> once more
  (delivery is at least once).
\<close>

theorem flush_unlink_failure:
  assumes "env_ready E" and "p \<noteq> []"
    and "map_of (spool w) (p @ ''.parts'') = Some files" and "distinct (map fst files)"
    and "k \<in> set (part_names files)"
    and "appendable (remote w) p"
  shows "let r1 = flush_spool E (unlink_fails_at k) (Some p) w;
             r2 = flush_spool E no_faults (Some p) (snd r1)
         in fst r1 = (length (part_names files) - 1, 1)
          \<and> remote_blocks (remote (snd r1)) p
              = remote_blocks (remote w) p @ map (part_data files) (part_names files)
          \<and> part_names (dir_files (spool (snd r1)) (p @ ''.parts'')) = [k]
          \<and> fst r2 = (1, 0)
          \<and> remote_blocks (remote (snd r2)) p
              = remote_blocks (remote w) p @ map (part_data files) (part_names files)
                  @ [part_data files k]
          \<and> part_names (dir_files (spool (snd r2)) (p @ ''.parts'')) = []"
proof -
  let ?dir = "p @ ''.parts''"
  let ?F = "unlink_fails_at k"
  let ?rest = "[kv\<leftarrow>files. \<not> (fst kv \<in> set (part_names files) \<and> fst kv \<noteq> k)]"
  let ?w1 = "snd (flush_spool E ?F (Some p) w)"
  let ?b1 = "\<lparr>blob_type = AppendBlob,
       blocks = remote_blocks (remote w) p @ map (part_data files) (part_names files)\<rparr>"
  have F: "\<not> exists_fails ?F p" "\<not> create_fails ?F p" "\<forall>n. \<not> read_fails ?F ?dir n"
    "\<forall>n. (\<not> append_fails ?F p n \<and> \<not> unlink_fails ?F ?dir n) \<longleftrightarrow> n \<noteq> k"
    by (simp_all add: unlink_fails_at_simps)
  note first = flush_one_failure [OF assms F]
  have sp1: "map_of (spool ?w1) ?dir = Some ?rest" by (rule first(2))
  have re1: "map_of (remote ?w1) p = Some ?b1"
    using first(3) by (simp add: unlink_fails_at_simps)
  note left = left_behind [OF assms(4,5)]
  note second = flush_last_part [OF assms(1,2) sp1 left(2,3) re1]
  show ?thesis
    unfolding Let_def
    using first(1) sp1 re1 left(3,4) second
    by (simp add: remote_blocks_def dir_files_def)
qed

theorem flush_unlink_failure_witness:
  "env_ready ready_env \<and> ''bronze/pve/status.jsonl'' \<noteq> []
   \<and> map_of (spool example_world) (''bronze/pve/status.jsonl'' @ ''.parts'') = Some three_parts
   \<and> distinct (map fst three_parts)
   \<and> ''20240101T000002_b1.jsonl.part'' \<in> set (part_names three_parts)
   \<and> appendable (remote example_world) ''bronze/pve/status.jsonl''
   \<and> (let r1 = flush_spool ready_env (unlink_fails_at ''20240101T000002_b1.jsonl.part'')
                  (Some ''bronze/pve/status.jsonl'') example_world;
           r2 = flush_spool ready_env no_faults (Some ''bronze/pve/status.jsonl'') (snd r1)
       in fst r1 = (2, 1)
        \<and> remote_blocks (remote (snd r1)) ''bronze/pve/status.jsonl'' = [''A'', ''B'', ''C'']
        \<and> part_names (dir_files (spool (snd r1)) ''bronze/pve/status.jsonl.parts'')
            = [''20240101T000002_b1.jsonl.part'']
        \<and> fst r2 = (1, 0)
        \<and> remote_blocks (remote (snd r2)) ''bronze/pve/status.jsonl'' = [''A'', ''B'', ''C'', ''B'']
        \<and> part_names (dir_files (spool (snd r2)) ''bronze/pve/status.jsonl.parts'') = [])"
proof -
  let ?p = "''bronze/pve/status.jsonl''"
  let ?k = "''20240101T000002_b1.jsonl.part''"
  have h1: "env_ready ready_env" by code_simp
  have h2: "?p \<noteq> []" by simp
  have h3: "map_of (spool example_world) (?p @ ''.parts'') = Some three_parts" by code_simp
  have h4: "distinct (map fst three_parts)" by code_simp
  have h5: "?k \<in> set (part_names three_parts)" by code_simp
  have h6: "appendable (remote example_world) ?p" by code_simp
  have e1: "length (part_names three_parts) - 1 = 2" by code_simp
  have e2: "remote_blocks (remote example_world) ?p
      @ map (part_data three_parts) (part_names three_parts) = [''A'', ''B'', ''C'']"
    by code_simp
  have e3: "part_data three_parts ?k = ''B''" by code_simp
  from flush_unlink_failure [OF h1 h2 h3 h4 h5 h6]
  show ?thesis
    unfolding Let_def using h1 h3 h4 h5 h6 e1 e2 e3 by simp
qed

text \<open>
  A single part whose deletion fails: its bytes are on the remote object, the file is
  still there, and the call returns \<open>(0, 1)\<close>.
\<close>

theorem flush_unlink_failure_counterexample:
  "flush_spool ready_env (unlink_fails_at ''20240101T000001_a1.jsonl.part'')
     (Some ''t.jsonl'')
     \<lparr>spool = [(''t.jsonl.parts'', [(''20240101T000001_a1.jsonl.part'', ''A'')])],
      remote = [], printed = []\<rparr>
   = ((0, 1),
      \<lparr>spool = [(''t.jsonl.parts'', [(''20240101T000001_a1.jsonl.part'', ''A'')])],
       remote = [(''t.jsonl'', \<lparr>blob_type = AppendBlob, blocks = [''A'']\<rparr>)],
       printed = []\<rparr>)"
  by code_simp

section \<open>Flush: a remote object of another type\<close>

text \<open>
  C3, the code at the failing input. A block blob already sits at the target's path.
  \<open>flush_spool\<close> only asks whether the object exists and then appends: each of the three
  appends is rejected and swallowed by the per-part handler, so the call returns \<open>(0, 3)\<close>
  with nothing printed and every part left on disk, exactly as after three transient append
  failures. \<open>ensure_append_blob\<close> on the same container checks the type and exits.
\<close>

theorem flush_spool_block_blob:
  "flush_spool ready_env no_faults (Some ''bronze/pve/status.jsonl'')
     (example_world\<lparr>remote := [(''bronze/pve/status.jsonl'',
                                 \<lparr>blob_type = BlockBlob, blocks = [''old'']\<rparr>)]\<rparr>)
   = ((0, 3),
      example_world\<lparr>remote := [(''bronze/pve/status.jsonl'',
                                 \<lparr>blob_type = BlockBlob, blocks = [''old'']\<rparr>)]\<rparr>)
   \<and> ensure_append_blob
        [(''bronze/pve/status.jsonl'', \<lparr>blob_type = BlockBlob, blocks = [''old'']\<rparr>)]
        ''bronze/pve/status.jsonl''
      = Inl (SystemExit ''Blob exists but is not AppendBlob: bronze/pve/status.jsonl'')"
  by code_simp

section \<open>Flush: the full sweep\<close>

text \<open>
  Suffixes, and the path \<open>build_bronze_path\<close> returns.
\<close>

lemma ends_with_self: "ends_with suf suf"
  by (simp add: ends_with_def)

lemma ends_with_Cons: "ends_with s suf \<Longrightarrow> ends_with (c # s) suf"
  by (auto simp: ends_with_def Suc_diff_le)

lemma ends_with_append: "ends_with s suf \<Longrightarrow> ends_with (pre @ s) suf"
  by (induction pre) (auto intro: ends_with_Cons)

lemma ends_with_split: "ends_with s suf \<Longrightarrow> \<exists>pre. s = pre @ suf"
  by (metis append_take_drop_id ends_with_def)

lemma ends_with_parts:
  assumes "ends_with p ''.jsonl''"
  shows "ends_with (p @ ''.parts'') ''.jsonl.parts''"
proof -
  from ends_with_split [OF assms] obtain pre where "p = pre @ ''.jsonl''" by blast
  then have "p @ ''.parts'' = pre @ ''.jsonl.parts''" by simp
  then show ?thesis by (simp only: ends_with_append [OF ends_with_self])
qed

lemma removesuffix_append: "removesuffix (p @ suf) suf = p"
  by (simp add: removesuffix_def ends_with_append [OF ends_with_self])

lemma build_bronze_path_jsonl:
  "build_bronze_path L cfg dt = Inr p \<Longrightarrow> ends_with p ''.jsonl''"
  by (auto simp: build_bronze_path_def Let_def split: sum.splits if_splits
      intro!: ends_with_append ends_with_Cons ends_with_self)

text \<open>
  Flushing one directory changes no other directory and no other remote object.
\<close>

lemma flush_part_frame:
  "(d' \<noteq> dir \<longrightarrow> map_of (spool (cur (flush_part F dir bp n s))) d' = map_of (spool (cur s)) d')
   \<and> (q \<noteq> bp \<longrightarrow> map_of (remote (cur (flush_part F dir bp n s))) q = map_of (remote (cur s)) q)"
  by (auto simp: flush_part_def read_bytes_def append_block_def unlink_def update_conv'
      split: sum.splits option.splits if_splits)

lemma flush_parts_frame:
  "(d' \<noteq> dir \<longrightarrow>
      map_of (spool (cur (fold (flush_part F dir bp) ns s))) d' = map_of (spool (cur s)) d')
   \<and> (q \<noteq> bp \<longrightarrow>
      map_of (remote (cur (fold (flush_part F dir bp) ns s))) q = map_of (remote (cur s)) q)"
proof (induction ns arbitrary: s)
  case Nil
  then show ?case by simp
next
  case (Cons n ns)
  show ?case
    using Cons.IH [of "flush_part F dir bp n s"] flush_part_frame [of d' dir F bp n s q]
    by simp
qed

lemma flush_dir_frame:
  "(d' \<noteq> dir \<longrightarrow> map_of (spool (cur (flush_dir F t dir s))) d' = map_of (spool (cur s)) d')
   \<and> (q \<noteq> blob_path_for t dir \<longrightarrow>
        map_of (remote (cur (flush_dir F t dir s))) q = map_of (remote (cur s)) q)"
proof -
  let ?bp = "blob_path_for t dir"
  have frame: "(d' \<noteq> dir \<longrightarrow>
      map_of (spool (cur (fold (flush_part F dir ?bp) ns s0))) d' = map_of (spool (cur s0)) d')
   \<and> (q \<noteq> ?bp \<longrightarrow>
      map_of (remote (cur (fold (flush_part F dir ?bp) ns s0))) q = map_of (remote (cur s0)) q)"
    for ns s0
    by (rule flush_parts_frame)
  show ?thesis
    using frame
    by (auto simp: flush_dir_def Let_def cleanup_dir_lookup blob_exists_def
        create_append_blob_def update_conv' split: sum.splits if_splits)
qed


lemma removesuffix_restore: "ends_with d suf \<Longrightarrow> removesuffix d suf @ suf = d"
  by (metis append_take_drop_id ends_with_def removesuffix_def)

lemma blob_path_sweep: "blob_path_for None d = removesuffix d ''.parts''"
  by (simp add: blob_path_for_def given_def)

lemma blob_path_inj:
  assumes "ends_with d ''.parts''" "ends_with d' ''.parts''" "d \<noteq> d'"
  shows "blob_path_for None d \<noteq> blob_path_for None d'"
  using assms removesuffix_restore [of d "''.parts''"] removesuffix_restore [of d' "''.parts''"]
  unfolding blob_path_sweep by metis

lemma dir_files_Some: "dir_files sp d \<noteq> [] \<Longrightarrow> map_of sp d = Some (dir_files sp d)"
  by (auto simp: dir_files_def split: option.splits)

lemma appendable_blocks:
  "map_of c p = Some \<lparr>blob_type = AppendBlob, blocks = bs\<rparr> \<Longrightarrow>
   appendable c p \<and> remote_blocks c p = bs"
  by (simp add: appendable_def remote_blocks_def)

text \<open>One directory of the sweep, with nothing failing.\<close>

lemma flush_dir_clean:
  assumes d: "distinct (map fst (dir_files (spool (cur s)) dir))"
    and store: "appendable (remote (cur s)) (blob_path_for t dir)"
  shows "part_names (dir_files (spool (cur (flush_dir no_faults t dir s))) dir) = []"
    and "remote_blocks (remote (cur (flush_dir no_faults t dir s))) (blob_path_for t dir)
           = remote_blocks (remote (cur s)) (blob_path_for t dir)
             @ map (part_data (dir_files (spool (cur s)) dir))
                 (part_names (dir_files (spool (cur s)) dir))"
    and "flushed (flush_dir no_faults t dir s)
           = flushed s + length (part_names (dir_files (spool (cur s)) dir))"
    and "failed (flush_dir no_faults t dir s) = failed s"
    and "appendable (remote (cur (flush_dir no_faults t dir s))) (blob_path_for t dir)"
proof -
  let ?fs = "dir_files (spool (cur s)) dir"
  let ?bp = "blob_path_for t dir"
  let ?s1 = "flush_dir no_faults t dir s"
  have all: "part_names (dir_files (spool (cur ?s1)) dir) = []
      \<and> remote_blocks (remote (cur ?s1)) ?bp
           = remote_blocks (remote (cur s)) ?bp @ map (part_data ?fs) (part_names ?fs)
      \<and> flushed ?s1 = flushed s + length (part_names ?fs)
      \<and> failed ?s1 = failed s
      \<and> appendable (remote (cur ?s1)) ?bp"
  proof (cases "part_names ?fs = []")
    case True
    then have s1: "?s1 = s\<lparr>cur := (cur s)\<lparr>spool := cleanup_dir (spool (cur s)) dir\<rparr>\<rparr>"
      by (simp add: flush_dir_def Let_def)
    have "dir_files (cleanup_dir (spool (cur s)) dir) dir = ?fs"
      by (auto simp: dir_files_def cleanup_dir_lookup split: option.splits)
    then show ?thesis using True store by (simp add: s1)
  next
    case False
    then have "?fs \<noteq> []" by (auto simp: part_names_def)
    then have files: "map_of (spool (cur s)) dir = Some ?fs" by (rule dir_files_Some)
    have F: "\<not> exists_fails no_faults ?bp" "\<not> create_fails no_faults ?bp"
      "\<forall>n. \<not> read_fails no_faults dir n"
      by (simp_all add: no_faults_simps)
    note run = flush_dir_run [OF refl files d False store F]
    have rest: "dir_files (spool (cur ?s1)) dir = [kv\<leftarrow>?fs. fst kv \<notin> set (part_names ?fs)]"
      using run(3) by (simp add: dir_files_def Let_def no_faults_simps)
    have "part_names (dir_files (spool (cur ?s1)) dir) = []"
      unfolding rest
      using part_names_filter [of "\<lambda>n. n \<notin> set (part_names ?fs)" ?fs] by simp
    moreover have "map_of (remote (cur ?s1)) ?bp
        = Some \<lparr>blob_type = AppendBlob,
                blocks = remote_blocks (remote (cur s)) ?bp @ map (part_data ?fs) (part_names ?fs)\<rparr>"
      using run(4) by (simp add: no_faults_simps)
    ultimately show ?thesis
      using run(1,2) appendable_blocks by (simp add: no_faults_simps)
  qed
  from all show "part_names (dir_files (spool (cur ?s1)) dir) = []"
    and "remote_blocks (remote (cur ?s1)) ?bp
           = remote_blocks (remote (cur s)) ?bp @ map (part_data ?fs) (part_names ?fs)"
    and "flushed ?s1 = flushed s + length (part_names ?fs)"
    and "failed ?s1 = failed s"
    and "appendable (remote (cur ?s1)) ?bp"
    by simp_all
qed

lemma flush_dir_other:
  assumes "d' \<noteq> dir" "blob_path_for t d' \<noteq> blob_path_for t dir"
  shows "dir_files (spool (cur (flush_dir F t dir s))) d' = dir_files (spool (cur s)) d'"
    and "remote_blocks (remote (cur (flush_dir F t dir s))) (blob_path_for t d')
           = remote_blocks (remote (cur s)) (blob_path_for t d')"
    and "appendable (remote (cur (flush_dir F t dir s))) (blob_path_for t d')
           = appendable (remote (cur s)) (blob_path_for t d')"
  using assms flush_dir_frame [of d' dir F t s "blob_path_for t d'"]
  by (simp_all add: dir_files_def remote_blocks_def appendable_def)

text \<open>The sweep over a list of distinct spool directories, with nothing failing.\<close>

lemma sweep_clean:
  assumes "distinct ds" and "\<forall>d\<in>set ds. ends_with d ''.parts''"
    and "\<forall>d\<in>set ds. distinct (map fst (dir_files (spool (cur s)) d))"
    and "\<forall>d\<in>set ds. appendable (remote (cur s)) (blob_path_for None d)"
  shows "(\<forall>d\<in>set ds.
            part_names (dir_files (spool (cur (fold (flush_dir no_faults None) ds s))) d) = []
          \<and> remote_blocks (remote (cur (fold (flush_dir no_faults None) ds s))) (blob_path_for None d)
              = remote_blocks (remote (cur s)) (blob_path_for None d)
                @ map (part_data (dir_files (spool (cur s)) d))
                    (part_names (dir_files (spool (cur s)) d)))
       \<and> failed (fold (flush_dir no_faults None) ds s) = failed s
       \<and> flushed (fold (flush_dir no_faults None) ds s)
           = flushed s + (\<Sum>d\<leftarrow>ds. length (part_names (dir_files (spool (cur s)) d)))
       \<and> (\<forall>d'. d' \<notin> set ds \<and> (\<forall>d\<in>set ds. blob_path_for None d' \<noteq> blob_path_for None d) \<longrightarrow>
             dir_files (spool (cur (fold (flush_dir no_faults None) ds s))) d'
               = dir_files (spool (cur s)) d'
           \<and> remote_blocks (remote (cur (fold (flush_dir no_faults None) ds s))) (blob_path_for None d')
               = remote_blocks (remote (cur s)) (blob_path_for None d'))"
  using assms
proof (induction ds arbitrary: s)
  case Nil
  then show ?case by simp
next
  case (Cons d ds)
  let ?s1 = "flush_dir no_faults None d s"
  let ?s2 = "fold (flush_dir no_faults None) ds ?s1"
  have dd: "distinct (map fst (dir_files (spool (cur s)) d))"
    and ap: "appendable (remote (cur s)) (blob_path_for None d)"
    using Cons.prems by simp_all
  note one = flush_dir_clean [OF dd ap]
  have other: "dir_files (spool (cur ?s1)) d' = dir_files (spool (cur s)) d'
      \<and> remote_blocks (remote (cur ?s1)) (blob_path_for None d')
           = remote_blocks (remote (cur s)) (blob_path_for None d')
      \<and> appendable (remote (cur ?s1)) (blob_path_for None d')
           = appendable (remote (cur s)) (blob_path_for None d')"
    if "d' \<noteq> d" "blob_path_for None d' \<noteq> blob_path_for None d" for d'
    using flush_dir_other [OF that, of no_faults s] by simp
  have inj: "blob_path_for None d' \<noteq> blob_path_for None d" if "d' \<in> set ds" for d'
  proof -
    have "d' \<noteq> d" using that Cons.prems(1) by auto
    then show ?thesis
      using blob_path_inj [of d' d] that Cons.prems(2) by simp
  qed
  have neq: "d' \<noteq> d" if "d' \<in> set ds" for d'
    using that Cons.prems(1) by auto
  have p1: "distinct ds" and p2: "\<forall>d\<in>set ds. ends_with d ''.parts''"
    using Cons.prems by simp_all
  have p3: "\<forall>d'\<in>set ds. distinct (map fst (dir_files (spool (cur ?s1)) d'))"
    using Cons.prems(3) other neq inj by simp
  have p4: "\<forall>d'\<in>set ds. appendable (remote (cur ?s1)) (blob_path_for None d')"
    using Cons.prems(4) other neq inj by simp
  note ih = Cons.IH [OF p1 p2 p3 p4]
  have d_kept: "dir_files (spool (cur ?s2)) d = dir_files (spool (cur ?s1)) d
      \<and> remote_blocks (remote (cur ?s2)) (blob_path_for None d)
           = remote_blocks (remote (cur ?s1)) (blob_path_for None d)"
  proof -
    have "d \<notin> set ds" using Cons.prems(1) by simp
    moreover have "\<forall>d'\<in>set ds. blob_path_for None d \<noteq> blob_path_for None d'"
      using inj by metis
    ultimately show ?thesis using ih by blast
  qed
  have sums: "(\<Sum>d'\<leftarrow>ds. length (part_names (dir_files (spool (cur ?s1)) d')))
      = (\<Sum>d'\<leftarrow>ds. length (part_names (dir_files (spool (cur s)) d')))"
    using other neq inj by (intro arg_cong [where f = sum_list] map_cong refl) simp
  have c1: "\<forall>d'\<in>set (d # ds).
            part_names (dir_files (spool (cur ?s2)) d') = []
          \<and> remote_blocks (remote (cur ?s2)) (blob_path_for None d')
              = remote_blocks (remote (cur s)) (blob_path_for None d')
                @ map (part_data (dir_files (spool (cur s)) d'))
                    (part_names (dir_files (spool (cur s)) d'))"
  proof
    fix d' assume "d' \<in> set (d # ds)"
    then consider "d' = d" | "d' \<in> set ds" by auto
    then show "part_names (dir_files (spool (cur ?s2)) d') = []
          \<and> remote_blocks (remote (cur ?s2)) (blob_path_for None d')
              = remote_blocks (remote (cur s)) (blob_path_for None d')
                @ map (part_data (dir_files (spool (cur s)) d'))
                    (part_names (dir_files (spool (cur s)) d'))"
    proof cases
      case 1
      then show ?thesis using d_kept one(1,2) by simp
    next
      case 2
      then show ?thesis using ih other [OF neq [OF 2] inj [OF 2]] by simp
    qed
  qed
  have c2: "failed ?s2 = failed s" using ih one(4) by simp
  have c3: "flushed ?s2
      = flushed s + (\<Sum>d'\<leftarrow>d # ds. length (part_names (dir_files (spool (cur s)) d')))"
    using ih one(3) sums by simp
  have c4: "dir_files (spool (cur ?s2)) d' = dir_files (spool (cur s)) d'
           \<and> remote_blocks (remote (cur ?s2)) (blob_path_for None d')
               = remote_blocks (remote (cur s)) (blob_path_for None d')"
    if "d' \<notin> set (d # ds)" "\<forall>e\<in>set (d # ds). blob_path_for None d' \<noteq> blob_path_for None e" for d'
  proof -
    have "d' \<noteq> d" "blob_path_for None d' \<noteq> blob_path_for None d" using that by auto
    from other [OF this] have o: "dir_files (spool (cur ?s1)) d' = dir_files (spool (cur s)) d'"
      "remote_blocks (remote (cur ?s1)) (blob_path_for None d')
           = remote_blocks (remote (cur s)) (blob_path_for None d')" by simp_all
    have "d' \<notin> set ds" "\<forall>e\<in>set ds. blob_path_for None d' \<noteq> blob_path_for None e"
      using that by auto
    with ih have "dir_files (spool (cur ?s2)) d' = dir_files (spool (cur ?s1)) d'
      \<and> remote_blocks (remote (cur ?s2)) (blob_path_for None d')
           = remote_blocks (remote (cur ?s1)) (blob_path_for None d')" by blast
    with o show ?thesis by simp
  qed
  show ?case
    using c1 c2 c3 c4 by (simp del: sum_list.Cons)
qed

lemma ends_with_parts_only: "ends_with d ''.jsonl.parts'' \<Longrightarrow> ends_with d ''.parts''"
proof -
  assume "ends_with d ''.jsonl.parts''"
  then obtain pre where "d = pre @ ''.jsonl.parts''" using ends_with_split by blast
  then have "d = (pre @ ''.jsonl'') @ ''.parts''" by simp
  then show ?thesis by (simp only: ends_with_append [OF ends_with_self])
qed

lemma flush_spool_sweep:
  assumes "env_ready E"
  shows "flush_spool E F None w =
     (let s = fold (flush_dir F None) (parts_dirs None (spool w)) \<lparr>flushed = 0, failed = 0, cur = w\<rparr>
      in ((flushed s, failed s), cur s))"
  using assms by (auto simp: flush_spool_def env_ready_def Let_def)

lemma sweep_one_target:
  assumes env: "env_ready E"
    and dir: "map_of (spool w) dir = Some files" "ends_with dir ''.jsonl.parts''"
    and wf: "distinct (map fst (spool w))"
      "list_all (\<lambda>(d, fs). distinct (map fst fs)) (spool w)"
    and store: "list_all (\<lambda>d. appendable (remote w) (blob_path_for None d)) (parts_dirs None (spool w))"
  shows "fst (flush_spool E no_faults None w)
           = ((\<Sum>d\<leftarrow>parts_dirs None (spool w). length (part_names (dir_files (spool w) d))), 0)"
    and "part_names (dir_files (spool (snd (flush_spool E no_faults None w))) dir) = []"
    and "remote_blocks (remote (snd (flush_spool E no_faults None w))) (blob_path_for None dir)
           = remote_blocks (remote w) (blob_path_for None dir)
             @ map (part_data files) (part_names files)"
proof -
  let ?ds = "parts_dirs None (spool w)"
  let ?init = "\<lparr>flushed = 0, failed = 0, cur = w\<rparr>"
  let ?s = "fold (flush_dir no_faults None) ?ds ?init"
  have fs: "flush_spool E no_faults None w = ((flushed ?s, failed ?s), cur ?s)"
    using flush_spool_sweep [OF env] by (simp add: Let_def)
  have ds: "?ds = [d\<leftarrow>map fst (spool w). ends_with d ''.jsonl.parts'']"
    by (simp add: parts_dirs_def given_def)
  have a1: "distinct ?ds" using wf(1) by (simp add: ds)
  have a2: "\<forall>d\<in>set ?ds. ends_with d ''.parts''"
    by (auto simp: ds intro: ends_with_parts_only)
  have a3: "\<forall>d\<in>set ?ds. distinct (map fst (dir_files (spool (cur ?init)) d))"
  proof
    fix d assume "d \<in> set ?ds"
    show "distinct (map fst (dir_files (spool (cur ?init)) d))"
    proof (cases "map_of (spool w) d")
      case None
      then show ?thesis by (simp add: dir_files_def)
    next
      case (Some fs)
      then have "(d, fs) \<in> set (spool w)" by (rule map_of_SomeD)
      with wf(2) have "distinct (map fst fs)" by (auto simp: list_all_iff)
      with Some show ?thesis by (simp add: dir_files_def)
    qed
  qed
  have a4: "\<forall>d\<in>set ?ds. appendable (remote (cur ?init)) (blob_path_for None d)"
    using store by (simp add: list_all_iff)
  note sw = sweep_clean [OF a1 a2 a3 a4]
  have "dir \<in> fst ` set (spool w)" using dir(1) by (metis domI dom_map_of_conv_image_fst)
  then have mem: "dir \<in> set ?ds" using dir(2) by (simp add: ds)
  have df: "dir_files (spool w) dir = files" using dir(1) by (simp add: dir_files_def)
  show "fst (flush_spool E no_faults None w)
           = ((\<Sum>d\<leftarrow>?ds. length (part_names (dir_files (spool w) d))), 0)"
    using sw by (simp add: fs)
  show "part_names (dir_files (spool (snd (flush_spool E no_faults None w))) dir) = []"
    using sw mem by (simp add: fs)
  show "remote_blocks (remote (snd (flush_spool E no_faults None w))) (blob_path_for None dir)
           = remote_blocks (remote w) (blob_path_for None dir)
             @ map (part_data files) (part_names files)"
    using sw mem df by (simp add: fs)
qed

text \<open>Splitting at the slashes, and joining again.\<close>

lemma split_slash_nonempty: "split_slash s \<noteq> []"
  by (induction s) (auto split: list.splits)

lemma split_slash_append:
  "CHR ''/'' \<notin> set t \<Longrightarrow>
   split_slash (s @ t) = butlast (split_slash s) @ [last (split_slash s) @ t]"
proof (induction s)
  case Nil
  then show ?case by (induction t) (auto split: list.splits)
next
  case (Cons c s)
  then show ?case
    using split_slash_nonempty [of s] split_slash_nonempty [of "s @ t"]
    by (cases "split_slash s") (auto split: list.splits)
qed

lemma join_split_slash: "join_slash (split_slash s) = s"
proof (induction s)
  case Nil
  then show ?case by simp
next
  case (Cons c s)
  obtain w ws where sp: "split_slash s = w # ws"
    using split_slash_nonempty [of s] by (cases "split_slash s") auto
  show ?case
  proof (cases "c = CHR ''/''")
    case True
    then show ?thesis using Cons sp by simp
  next
    case False
    then show ?thesis using Cons sp by (cases ws) simp_all
  qed
qed

lemma join_slash_snoc:
  "join_slash (ys @ [w]) = (if ys = [] then w else join_slash ys @ ''/'' @ w)"
  by (induction ys rule: join_slash.induct) simp_all

lemma walk_names:
  "list_all (\<lambda>w. w \<noteq> ''..'') ws \<Longrightarrow> walk here ws = here @ ws"
  by (induction ws arbitrary: here) simp_all

lemma walk_snoc: "w \<noteq> ''..'' \<Longrightarrow> walk here (ws @ [w]) = walk here ws @ [w]"
  by (induction ws arbitrary: here) simp_all

lemma long_name: "3 \<le> length w \<Longrightarrow> w \<noteq> [] \<and> w \<noteq> ''.'' \<and> w \<noteq> ''..''"
  by auto

lemma filter_names:
  "list_all (\<lambda>w. w \<noteq> [] \<and> w \<noteq> ''.'' \<and> w \<noteq> ''..'') ws \<Longrightarrow>
   filter (\<lambda>w. w \<noteq> [] \<and> w \<noteq> ''.'') ws = ws"
  by (induction ws) auto

lemma is_absolute_append: "s \<noteq> [] \<Longrightarrow> is_absolute (s @ t) = is_absolute s"
  by (cases s) (simp_all add: is_absolute_def)

text \<open>A path in normal form is its own place below the root.\<close>

lemma locate_normal_form:
  assumes "normal_form name"
  shows "locate spool_root name = Some name"
proof -
  let ?ws = "split_slash name"
  have rel: "\<not> is_absolute name"
    and names: "list_all (\<lambda>w. w \<noteq> [] \<and> w \<noteq> ''.'' \<and> w \<noteq> ''..'') ?ws"
    using assms by (simp_all add: normal_form_def)
  have pp: "path_parts name = ?ws"
    unfolding path_parts_def by (rule filter_names [OF names])
  have "list_all (\<lambda>w. w \<noteq> ''..'') ?ws"
    using names by (simp add: list_all_iff)
  then have w: "walk spool_root ?ws = spool_root @ ?ws" by (rule walk_names)
  have ne: "?ws \<noteq> []" by (rule split_slash_nonempty)
  show ?thesis
    using rel pp w ne by (simp add: locate_def Let_def join_split_slash)
qed

lemma normal_form_parts:
  assumes "normal_form bp"
  shows "normal_form (bp @ ''.parts'')"
proof -
  let ?ws = "split_slash bp"
  have rel: "\<not> is_absolute bp"
    and names: "list_all (\<lambda>w. w \<noteq> [] \<and> w \<noteq> ''.'' \<and> w \<noteq> ''..'') ?ws"
    using assms by (simp_all add: normal_form_def)
  have "bp \<noteq> []" using names by auto
  then have rel': "\<not> is_absolute (bp @ ''.parts'')"
    using rel by (simp add: is_absolute_append)
  have sp: "split_slash (bp @ ''.parts'') = butlast ?ws @ [last ?ws @ ''.parts'']"
    by (rule split_slash_append) simp
  have "set (butlast ?ws) \<subseteq> set ?ws" by (auto dest: in_set_butlastD)
  then have b: "list_all (\<lambda>w. w \<noteq> [] \<and> w \<noteq> ''.'' \<and> w \<noteq> ''..'') (butlast ?ws)"
    using names unfolding list_all_iff by blast
  have l: "last ?ws @ ''.parts'' \<noteq> [] \<and> last ?ws @ ''.parts'' \<noteq> ''.''
      \<and> last ?ws @ ''.parts'' \<noteq> ''..''"
    by (rule long_name) simp
  show ?thesis
    unfolding normal_form_def using rel' b l by (simp add: sp)
qed

text \<open>
  The directory of a path that ends in \<open>.jsonl\<close>, wherever it lies below the root, has a
  name the sweep looks for.
\<close>

lemma locate_ends:
  assumes "ends_with bp ''.jsonl''" and "locate spool_root (bp @ ''.parts'') = Some d"
  shows "ends_with d ''.jsonl.parts''"
proof -
  from ends_with_split [OF assms(1)] obtain pre where bp: "bp = pre @ ''.jsonl''" by blast
  let ?name = "pre @ ''.jsonl.parts''"
  let ?w = "last (split_slash pre) @ ''.jsonl.parts''"
  let ?xs = "filter (\<lambda>w. w \<noteq> [] \<and> w \<noteq> ''.'') (butlast (split_slash pre))"
  let ?start = "if is_absolute ?name then [] else spool_root"
  have name: "bp @ ''.parts'' = ?name" by (simp add: bp)
  have sp: "split_slash ?name = butlast (split_slash pre) @ [?w]"
    by (rule split_slash_append) simp
  have w: "?w \<noteq> [] \<and> ?w \<noteq> ''.'' \<and> ?w \<noteq> ''..''"
    by (rule long_name) simp
  have pp: "path_parts ?name = ?xs @ [?w]"
    using w by (simp add: path_parts_def sp)
  have wk: "walk ?start (path_parts ?name) = walk ?start ?xs @ [?w]"
    unfolding pp using w by (simp add: walk_snoc)
  let ?r = "walk ?start ?xs"
  from assms(2) have below: "length spool_root < length (?r @ [?w])"
    and d: "d = join_slash (drop (length spool_root) (?r @ [?w]))"
    unfolding name locate_def Let_def wk by (simp_all split: if_splits)
  from below have "length spool_root \<le> length ?r" by simp
  then have "d = join_slash (drop (length spool_root) ?r @ [?w])"
    using d by simp
  then have "d = ?w \<or> d = join_slash (drop (length spool_root) ?r) @ ''/'' @ ?w"
    by (simp add: join_slash_snoc split: if_splits)
  then show ?thesis
  proof
    assume "d = ?w"
    then show ?thesis
      by (simp only: ends_with_append [OF ends_with_self])
  next
    assume "d = join_slash (drop (length spool_root) ?r) @ ''/'' @ ?w"
    then show ?thesis
      by (simp only: ends_with_append [OF ends_with_append [OF ends_with_append [OF ends_with_self]]])
  qed
qed

text \<open>
  C9 (as amended). \<open>write_to_spool\<close> joins the target path to the spool root as a path. For
  a target path that ends in \<open>.jsonl\<close> and whose directory lies below the spool root, the
  directory is among the directories a sweep without a target scans. The sweep names the
  remote object after the place of the directory below the root; for a target path in
  normal form (relative, every component a name) that place is the path as written, and
  the sweep recovers the target path. When such a directory is in the spool, the store is
  ready and nothing fails, the sweep leaves no part in it and appends its parts, in the
  order of their names, to that object; the flushed count is the number of parts in the
  scanned directories. Every path that \<open>build_bronze_path\<close> returns ends in \<open>.jsonl\<close>.
\<close>

theorem sweep_flushes_jsonl_targets:
  assumes "ends_with blob_path ''.jsonl''"
    and "locate spool_root (blob_path @ ''.parts'') = Some d"
  shows "fst (snd (write_to_spool spool_root json_dumps stamp uuid_hex blob_path record sp)) = Some d
       \<and> d \<in> set (parts_dirs None
               (fst (write_to_spool spool_root json_dumps stamp uuid_hex blob_path record sp)))
       \<and> (normal_form blob_path \<longrightarrow>
            d = blob_path @ ''.parts'' \<and> blob_path_for None d = blob_path)
       \<and> (env_ready E
            \<and> map_of (spool w) d = Some files
            \<and> distinct (map fst (spool w))
            \<and> list_all (\<lambda>(d, fs). distinct (map fst fs)) (spool w)
            \<and> list_all (\<lambda>d. appendable (remote w) (blob_path_for None d))
                 (parts_dirs None (spool w))
            \<and> sorted ns \<and> distinct ns
            \<and> set ns = set [n\<leftarrow>map fst files. ends_with n ''.jsonl.part'']
          \<longrightarrow> fst (flush_spool E no_faults None w)
                = ((\<Sum>d\<leftarrow>parts_dirs None (spool w).
                      length [n\<leftarrow>map fst (dir_files (spool w) d). ends_with n ''.jsonl.part'']), 0)
            \<and> [n\<leftarrow>map fst (dir_files (spool (snd (flush_spool E no_faults None w))) d).
                 ends_with n ''.jsonl.part''] = []
            \<and> remote_blocks (remote (snd (flush_spool E no_faults None w))) (blob_path_for None d)
                = remote_blocks (remote w) (blob_path_for None d) @ map (part_data files) ns)
       \<and> (build_bronze_path L cfg dt = Inr p \<longrightarrow> ends_with p ''.jsonl'')"
proof -
  let ?sp = "fst (write_to_spool spool_root json_dumps stamp uuid_hex blob_path record sp)"
  have ends: "ends_with d ''.jsonl.parts''" by (rule locate_ends [OF assms])
  have written: "fst (snd (write_to_spool spool_root json_dumps stamp uuid_hex blob_path record sp))
      = Some d"
    using assms(2) by (simp add: write_to_spool_def Let_def)
  have "d \<in> fst ` set ?sp"
    using assms(2) by (simp add: write_to_spool_def Let_def dom_update)
  then have scanned: "d \<in> set (parts_dirs None ?sp)"
    using ends by (simp add: parts_dirs_def given_def)
  have recovered: "d = blob_path @ ''.parts'' \<and> blob_path_for None d = blob_path"
    if "normal_form blob_path"
  proof -
    have "locate spool_root (blob_path @ ''.parts'') = Some (blob_path @ ''.parts'')"
      by (rule locate_normal_form [OF normal_form_parts [OF that]])
    with assms(2) have "d = blob_path @ ''.parts''" by simp
    then show ?thesis
      using removesuffix_append [of blob_path "''.parts''"]
      by (simp add: blob_path_for_def given_def)
  qed
  have swept: "fst (flush_spool E no_faults None w)
                = ((\<Sum>d\<leftarrow>parts_dirs None (spool w).
                      length [n\<leftarrow>map fst (dir_files (spool w) d). ends_with n ''.jsonl.part'']), 0)
            \<and> [n\<leftarrow>map fst (dir_files (spool (snd (flush_spool E no_faults None w))) d).
                 ends_with n ''.jsonl.part''] = []
            \<and> remote_blocks (remote (snd (flush_spool E no_faults None w))) (blob_path_for None d)
                = remote_blocks (remote w) (blob_path_for None d) @ map (part_data files) ns"
    if h: "env_ready E" "map_of (spool w) d = Some files" "distinct (map fst (spool w))"
      "list_all (\<lambda>(d, fs). distinct (map fst fs)) (spool w)"
      "list_all (\<lambda>d. appendable (remote w) (blob_path_for None d)) (parts_dirs None (spool w))"
      and n: "sorted ns" "distinct ns"
      "set ns = set [n\<leftarrow>map fst files. ends_with n ''.jsonl.part'']"
  proof -
    have "(d, files) \<in> set (spool w)" using h(2) by (rule map_of_SomeD)
    with h(4) have "distinct (map fst files)" by (auto simp: list_all_iff)
    then have pn: "part_names files = ns" using n by (rule part_names_unique)
    have len: "length (part_names fs) = length [n\<leftarrow>map fst fs. ends_with n ''.jsonl.part'']" for fs
      by (simp add: part_names_def)
    have none: "[n\<leftarrow>map fst fs. ends_with n ''.jsonl.part''] = []" if "part_names fs = []" for fs
      using that by (simp add: part_names_def sort_empty)
    note sw = sweep_one_target [OF h(1,2) ends h(3,4,5)]
    show ?thesis
      using sw(1) sw(3) none [OF sw(2)] by (simp add: len pn)
  qed
  show ?thesis
  proof (intro conjI impI)
    show "fst (snd (write_to_spool spool_root json_dumps stamp uuid_hex blob_path record sp)) = Some d"
      by (rule written)
    show "d \<in> set (parts_dirs None ?sp)" by (rule scanned)
    show "d = blob_path @ ''.parts''" if "normal_form blob_path"
      using recovered [OF that] by (rule conjunct1)
    show "blob_path_for None d = blob_path" if "normal_form blob_path"
      using recovered [OF that] by (rule conjunct2)
    show "ends_with p ''.jsonl''" if "build_bronze_path L cfg dt = Inr p"
      using that by (rule build_bronze_path_jsonl)
  next
    assume a: "env_ready E
            \<and> map_of (spool w) d = Some files
            \<and> distinct (map fst (spool w))
            \<and> list_all (\<lambda>(d, fs). distinct (map fst fs)) (spool w)
            \<and> list_all (\<lambda>d. appendable (remote w) (blob_path_for None d))
                 (parts_dirs None (spool w))
            \<and> sorted ns \<and> distinct ns
            \<and> set ns = set [n\<leftarrow>map fst files. ends_with n ''.jsonl.part'']"
    have s: "fst (flush_spool E no_faults None w)
                = ((\<Sum>d\<leftarrow>parts_dirs None (spool w).
                      length [n\<leftarrow>map fst (dir_files (spool w) d). ends_with n ''.jsonl.part'']), 0)
            \<and> [n\<leftarrow>map fst (dir_files (spool (snd (flush_spool E no_faults None w))) d).
                 ends_with n ''.jsonl.part''] = []
            \<and> remote_blocks (remote (snd (flush_spool E no_faults None w))) (blob_path_for None d)
                = remote_blocks (remote w) (blob_path_for None d) @ map (part_data files) ns"
      using a by (intro swept) simp_all
    show "fst (flush_spool E no_faults None w)
                = ((\<Sum>d\<leftarrow>parts_dirs None (spool w).
                      length [n\<leftarrow>map fst (dir_files (spool w) d). ends_with n ''.jsonl.part'']), 0)"
      using s by (rule conjunct1)
    show "[n\<leftarrow>map fst (dir_files (spool (snd (flush_spool E no_faults None w))) d).
                 ends_with n ''.jsonl.part''] = []"
      using s by (rule conjunct1 [OF conjunct2])
    show "remote_blocks (remote (snd (flush_spool E no_faults None w))) (blob_path_for None d)
                = remote_blocks (remote w) (blob_path_for None d) @ map (part_data files) ns"
      using s by (rule conjunct2 [OF conjunct2])
  qed
qed

theorem sweep_flushes_jsonl_targets_witness:
  "ends_with ''bronze/pve/status.jsonl'' ''.jsonl''
   \<and> locate [''home'', ''u'', ''spool''] (''bronze/pve/status.jsonl'' @ ''.parts'')
      = Some ''bronze/pve/status.jsonl.parts''
   \<and> fst (snd (write_to_spool [''home'', ''u'', ''spool''] scalar_str ''20240101T000001'' ''a1''
        ''bronze/pve/status.jsonl'' (VStr ''r'') []))
      = Some ''bronze/pve/status.jsonl.parts''
   \<and> parts_dirs None
        (fst (write_to_spool [''home'', ''u'', ''spool''] scalar_str ''20240101T000001'' ''a1''
           ''bronze/pve/status.jsonl'' (VStr ''r'') []))
      = [''bronze/pve/status.jsonl.parts'']
   \<and> normal_form ''bronze/pve/status.jsonl''
   \<and> blob_path_for None ''bronze/pve/status.jsonl.parts'' = ''bronze/pve/status.jsonl''
   \<and> env_ready ready_env
   \<and> map_of (spool example_world) ''bronze/pve/status.jsonl.parts'' = Some three_parts
   \<and> distinct (map fst (spool example_world))
   \<and> list_all (\<lambda>(d, fs). distinct (map fst fs)) (spool example_world)
   \<and> list_all (\<lambda>d. appendable (remote example_world) (blob_path_for None d))
        (parts_dirs None (spool example_world))
   \<and> sorted [''20240101T000001_a1.jsonl.part'', ''20240101T000002_b1.jsonl.part'',
        ''20240101T000003_c1.jsonl.part'']
   \<and> distinct [''20240101T000001_a1.jsonl.part'', ''20240101T000002_b1.jsonl.part'',
        ''20240101T000003_c1.jsonl.part'']
   \<and> set [''20240101T000001_a1.jsonl.part'', ''20240101T000002_b1.jsonl.part'',
        ''20240101T000003_c1.jsonl.part'']
      = set [n\<leftarrow>map fst three_parts. ends_with n ''.jsonl.part'']
   \<and> map fst three_parts
      = [''20240101T000003_c1.jsonl.part'', ''20240101T000001_a1.jsonl.part'',
         ''20240101T000002_b1.jsonl.part'']
   \<and> fst (flush_spool ready_env no_faults None example_world) = (3, 0)
   \<and> [n\<leftarrow>map fst (dir_files (spool (snd (flush_spool ready_env no_faults None example_world)))
           ''bronze/pve/status.jsonl.parts''). ends_with n ''.jsonl.part''] = []
   \<and> remote_blocks (remote (snd (flush_spool ready_env no_faults None example_world)))
        ''bronze/pve/status.jsonl'' = [''A'', ''B'', ''C'']
   \<and> build_bronze_path example_lib
        [(''entity'', VStr ''status''), (''source'', VStr ''pve''),
         (''collect'', VDict [(''node'', VStr ''hl2'')])] ''2024-01-01''
      = Inr ''bronze/pve/status/dt=2024-01-01/status_hl2_2024-01-01.jsonl''
   \<and> ends_with ''bronze/pve/status/dt=2024-01-01/status_hl2_2024-01-01.jsonl'' ''.jsonl''"
proof -
  let ?rt = "[''home'', ''u'', ''spool'']"
  let ?p = "''bronze/pve/status.jsonl''"
  let ?d = "''bronze/pve/status.jsonl.parts''"
  let ?q = "''bronze/pve/status/dt=2024-01-01/status_hl2_2024-01-01.jsonl''"
  let ?cfg = "[(''entity'', VStr ''status''), (''source'', VStr ''pve''),
         (''collect'', VDict [(''node'', VStr ''hl2'')])]"
  let ?ns = "[''20240101T000001_a1.jsonl.part'', ''20240101T000002_b1.jsonl.part'',
        ''20240101T000003_c1.jsonl.part'']"
  have h: "ends_with ?p ''.jsonl''" by code_simp
  have g: "locate ?rt (?p @ ''.parts'') = Some ?d" by code_simp
  have n: "normal_form ?p" by code_simp
  have h1: "env_ready ready_env" by code_simp
  have h2: "map_of (spool example_world) ?d = Some three_parts" by code_simp
  have h3: "distinct (map fst (spool example_world))" by code_simp
  have h4: "list_all (\<lambda>(d, fs). distinct (map fst fs)) (spool example_world)" by code_simp
  have h5: "list_all (\<lambda>d. appendable (remote example_world) (blob_path_for None d))
        (parts_dirs None (spool example_world))" by code_simp
  have h6: "sorted ?ns" by code_simp
  have h7: "distinct ?ns" by code_simp
  have m: "map fst three_parts
      = [''20240101T000003_c1.jsonl.part'', ''20240101T000001_a1.jsonl.part'',
         ''20240101T000002_b1.jsonl.part'']" by code_simp
  have l: "[n\<leftarrow>map fst three_parts. ends_with n ''.jsonl.part'']
      = [''20240101T000003_c1.jsonl.part'', ''20240101T000001_a1.jsonl.part'',
         ''20240101T000002_b1.jsonl.part'']" by code_simp
  have h8: "set ?ns = set [n\<leftarrow>map fst three_parts. ends_with n ''.jsonl.part'']"
    unfolding l by auto
  have b: "build_bronze_path example_lib ?cfg ''2024-01-01'' = Inr ?q" by code_simp
  have c: "parts_dirs None
      (fst (write_to_spool ?rt scalar_str ''20240101T000001'' ''a1'' ?p (VStr ''r'') [])) = [?d]"
    by code_simp
  have e1: "(\<Sum>d\<leftarrow>parts_dirs None (spool example_world).
      length [n\<leftarrow>map fst (dir_files (spool example_world) d). ends_with n ''.jsonl.part'']) = 3"
    by code_simp
  have e2: "remote_blocks (remote example_world) ?p @ map (part_data three_parts) ?ns
      = [''A'', ''B'', ''C'']" by code_simp
  have e3: "blob_path_for None ?d = ?p" by code_simp
  from sweep_flushes_jsonl_targets [OF h g, of scalar_str "''20240101T000001''" "''a1''"
      "VStr ''r''" "[]" ready_env example_world three_parts ?ns example_lib ?cfg "''2024-01-01''" ?q]
  show ?thesis using h g n h1 h2 h3 h4 h5 h6 h7 h8 m b c e1 e2 e3 by simp
qed

text \<open>
  Three target paths whose records a sweep without a target does not bring to the object
  at the target path. A path with another ending gets a spool directory that the sweep
  never visits: the part stays on disk and the sweep reports \<open>(0, 0)\<close>. With an empty
  \<open>bronze_prefix\<close> the path \<open>build_bronze_path\<close> returns is absolute, the join leaves the
  spool root, and nothing is written below it. With the prefix \<open>bronze/\<close> the path has a
  doubled slash, which the join drops: the sweep appends to an object with another name.
\<close>

theorem sweep_flushes_jsonl_targets_counterexample:
  "write_to_spool [''home'', ''u'', ''spool''] scalar_str ''20240101T000001'' ''a1''
       ''bronze/pve/notes.txt'' (VStr ''r'') []
     = ([(''bronze/pve/notes.txt.parts'', [(''20240101T000001_a1.jsonl.part'', ''r'' @ [CHR 0x0A])])],
        Some ''bronze/pve/notes.txt.parts'', ''20240101T000001_a1.jsonl.part'')
   \<and> parts_dirs None
        [(''bronze/pve/notes.txt.parts'', [(''20240101T000001_a1.jsonl.part'', ''r'' @ [CHR 0x0A])])]
      = []
   \<and> flush_spool ready_env no_faults None
        \<lparr>spool = [(''bronze/pve/notes.txt.parts'',
                    [(''20240101T000001_a1.jsonl.part'', ''r'' @ [CHR 0x0A])])],
         remote = [], printed = []\<rparr>
      = ((0, 0),
         \<lparr>spool = [(''bronze/pve/notes.txt.parts'',
                    [(''20240101T000001_a1.jsonl.part'', ''r'' @ [CHR 0x0A])])],
          remote = [], printed = []\<rparr>)
   \<and> build_bronze_path example_lib
        [(''entity'', VStr ''status''), (''source'', VStr ''pve''),
         (''storage'', VDict [(''bronze_prefix'', VStr [])])] ''2024-01-01''
      = Inr ''/pve/status/dt=2024-01-01/status_2024-01-01.jsonl''
   \<and> write_to_spool [''home'', ''u'', ''spool''] scalar_str ''20240101T000001'' ''a1''
        ''/pve/status/dt=2024-01-01/status_2024-01-01.jsonl'' (VStr ''r'') []
      = ([], None, ''20240101T000001_a1.jsonl.part'')
   \<and> flush_spool ready_env no_faults None \<lparr>spool = [], remote = [], printed = []\<rparr>
      = ((0, 0), \<lparr>spool = [], remote = [], printed = []\<rparr>)
   \<and> build_bronze_path example_lib
        [(''entity'', VStr ''status''), (''source'', VStr ''pve''),
         (''storage'', VDict [(''bronze_prefix'', VStr ''bronze/'')])] ''2024-01-01''
      = Inr ''bronze//pve/status/dt=2024-01-01/status_2024-01-01.jsonl''
   \<and> fst (snd (write_to_spool [''home'', ''u'', ''spool''] scalar_str ''20240101T000001'' ''a1''
        ''bronze//pve/status/dt=2024-01-01/status_2024-01-01.jsonl'' (VStr ''r'') []))
      = Some ''bronze/pve/status/dt=2024-01-01/status_2024-01-01.jsonl.parts''
   \<and> blob_path_for None ''bronze/pve/status/dt=2024-01-01/status_2024-01-01.jsonl.parts''
      = ''bronze/pve/status/dt=2024-01-01/status_2024-01-01.jsonl''"
  by code_simp

end
